theory Spec2Isabelle
  imports Complex_Main "HOL-Library.Word" "HOL-Library.List_Lexorder"
begin

unbundle bit_operations_syntax

section \<open>Bytes, errors and results\<close>

text \<open>
  A Go \<^verbatim>\<open>byte\<close> is an 8-bit word, a \<^verbatim>\<open>uint32\<close> a 32-bit word; an \<^verbatim>\<open>int32\<close> is a
  32-bit word read by \<open>sint\<close>. A Go \<^verbatim>\<open>string\<close> is a sequence of bytes and is compared
  bytewise, which is the lexicographic order on byte lists.
\<close>

type_synonym byte = "8 word"
type_synonym uint32 = "32 word"
type_synonym int32 = "32 word"
type_synonym gostring = "byte list"

text \<open>
  The errors the package returns, one constructor per error value or message of the
  source. \<open>ErrEOF\<close>, \<open>ErrUnexpectedEOF\<close> and \<open>ErrSeek\<close> are the failures of the byte
  source.
\<close>

datatype error =
    ErrTooShort                     \<comment> \<open>\<^verbatim>\<open>errTooShort\<close>: "buffer too short"\<close>
  | ErrUnsupportedVersion           \<comment> \<open>"unsuported package version"\<close>
  | ErrNonHash                      \<comment> \<open>"trying to parse non-hash"\<close>
  | ErrUnterminatedHash             \<comment> \<open>"unterminated hash"\<close>
  | ErrUnterminatedArray            \<comment> \<open>"unterminated array"\<close>
  | ErrInvalidInteger gostring      \<comment> \<open>"invalid integer: %s"\<close>
  | ErrInvalidDouble gostring       \<comment> \<open>"invalid double: %s"\<close>
  | ErrUnsupportedValue byte        \<comment> \<open>"unsupported value: %s"\<close>
  | ErrInvalidOffsetIndex int       \<comment> \<open>"invalid offset index: %d"\<close>
  | ErrInvalidOffset int            \<comment> \<open>"invalid offset: %d"\<close>
  | ErrPloOutOfRange                \<comment> \<open>"ggpack plo out of range"\<close>
  | ErrCannotFindPlo                \<comment> \<open>"ggpack cannot find plo"\<close>
  | ErrEOF
  | ErrUnexpectedEOF
  | ErrSeek

text \<open>
  A run-time panic of Go is an outcome of its own: \<^verbatim>\<open>make\<close> panics when its length or
  capacity argument is negative.
\<close>

datatype panic = MakesliceLenOutOfRange | MakesliceCapOutOfRange

datatype 'a result = Ok 'a | Err error | Panic panic

section \<open>The cipher: \<^verbatim>\<open>DecodeXOR\<close>\<close>

definition magicBytes :: "byte list" where
  "magicBytes =
     [0x4f, 0xd0, 0xa0, 0xac,
      0x4a, 0x5b, 0xb9, 0xe5,
      0x93, 0x79, 0x45, 0xa5,
      0xc1, 0xcb, 0x31, 0x93]"

text \<open>
  The first loop of \<^verbatim>\<open>DecodeXOR\<close>, \<^verbatim>\<open>for i, v := range buf\<close>: \<open>i\<close> is the index of the
  head of the remaining bytes and \<open>prev\<close> the rolling byte. \<^verbatim>\<open>i & 0xf\<close> is \<open>i mod 16\<close>
  for the non-negative index, and \<^verbatim>\<open>byte(i*code)\<close> truncates the product to 8 bits.
\<close>

fun xor_loop :: "nat \<Rightarrow> byte \<Rightarrow> nat \<Rightarrow> byte list \<Rightarrow> byte list" where
  "xor_loop code prev i [] = []"
| "xor_loop code prev i (v # vs) =
     (let x = v XOR (magicBytes ! (i mod 16)) XOR (of_nat (i * code))
      in (x XOR prev) # xor_loop code x (i + 1) vs)"

text \<open>
  The second loop, \<^verbatim>\<open>for i := 5; i+1 < len(buf); i += 16\<close>, and its body
  \<^verbatim>\<open>buf[i] ^= 0x0d; buf[i+1] ^= 0x0d\<close>.
\<close>

definition flip_pair :: "nat \<Rightarrow> byte list \<Rightarrow> byte list" where
  "flip_pair i buf = (buf[i := buf ! i XOR 0x0d])[i + 1 := buf ! (i + 1) XOR 0x0d]"

function pair_loop :: "nat \<Rightarrow> byte list \<Rightarrow> byte list" where
  "pair_loop i buf =
     (if i + 1 < length buf then pair_loop (i + 16) (flip_pair i buf) else buf)"
  by pat_completeness auto
termination
  by (relation "measure (\<lambda>(i, buf). length buf - i)") (auto simp: flip_pair_def)

declare pair_loop.simps [simp del]

text \<open>\<^verbatim>\<open>DecodeXOR\<close> with the reader's \<^verbatim>\<open>method\<close> field as its first argument.\<close>

definition DecodeXOR :: "int \<Rightarrow> byte list \<Rightarrow> byte list" where
  "DecodeXOR method buf =
     (let code = (if method \<noteq> 2 then 0x6d else 0xad);
          buf1 = xor_loop code (of_nat (length buf)) 0 buf
      in if method \<noteq> 0 then pair_loop 5 buf1 else buf1)"

section \<open>Reading from a buffer\<close>

text \<open>
  The result type threads the cursor: a reader that takes \<^verbatim>\<open>buf *[]byte\<close> returns the
  value read and the remaining bytes. \<open>and_then\<close> is the \<^verbatim>\<open>if err != nil { return err }\<close>
  of the source; a panic propagates the same way.
\<close>

definition and_then :: "'a result \<Rightarrow> ('a \<Rightarrow> 'b result) \<Rightarrow> 'b result" where
  "and_then m f = (case m of Ok x \<Rightarrow> f x | Err e \<Rightarrow> Err e | Panic p \<Rightarrow> Panic p)"

text \<open>
  \<^verbatim>\<open>binary.LittleEndian.Uint32\<close>; every call of the source is guarded so that the
  buffer has at least four bytes.
\<close>

definition Uint32 :: "byte list \<Rightarrow> uint32" where
  "Uint32 b =
     ucast (b ! 0) OR push_bit 8 (ucast (b ! 1)) OR
     push_bit 16 (ucast (b ! 2)) OR push_bit 24 (ucast (b ! 3))"

definition readByte :: "byte list \<Rightarrow> (byte \<times> byte list) result" where
  "readByte buf = (if length buf < 1 then Err ErrTooShort else Ok (buf ! 0, drop 1 buf))"

definition readInt :: "byte list \<Rightarrow> (int32 \<times> byte list) result" where
  "readInt buf = (if length buf < 4 then Err ErrTooShort else Ok (Uint32 buf, drop 4 buf))"

section \<open>String resolution: \<^verbatim>\<open>readString\<close>\<close>

text \<open>The scan \<^verbatim>\<open>for len(buf) > end && buf[end] != 0 { end++ }\<close>.\<close>

function scan_end :: "byte list \<Rightarrow> nat \<Rightarrow> nat" where
  "scan_end buf end = (if length buf > end \<and> buf ! end \<noteq> 0 then scan_end buf (end + 1) else end)"
  by pat_completeness auto
termination
  by (relation "measure (\<lambda>(buf, end). length buf - end)") auto

declare scan_end.simps [simp del]

definition readString :: "int32 list \<Rightarrow> byte list \<Rightarrow> int32 \<Rightarrow> gostring result" where
  "readString offsets buf offset =
     (if sint offset < 0 \<or> nat (sint offset) \<ge> length offsets
      then Err (ErrInvalidOffsetIndex (sint offset))
      else
        let ofs = offsets ! nat (sint offset) in
        if sint ofs < 0 \<or> nat (sint ofs) \<ge> length buf
        then Err (ErrInvalidOffset (sint ofs))
        else
          let buf1 = drop (nat (sint ofs)) buf in
          Ok (take (scan_end buf1 0) buf1))"

section \<open>The offset table: \<^verbatim>\<open>readOffsets\<close>\<close>

text \<open>
  The loop \<^verbatim>\<open>for pos := plo + 1; int(pos+4) < len(buf); pos += 4\<close>. \<open>pos\<close> is a
  \<^verbatim>\<open>uint32\<close> in the source; it stays below the length of the block, which
  \<^verbatim>\<open>ReadPack\<close> allocates with an \<^verbatim>\<open>int32\<close> size, so \<open>pos + 4\<close> never wraps and a
  natural number models it.
\<close>

function offsets_loop :: "byte list \<Rightarrow> nat \<Rightarrow> int32 list \<Rightarrow> int32 list" where
  "offsets_loop buf pos acc =
     (if pos + 4 < length buf
      then
        let offset = Uint32 (drop pos buf) in
        if offset = 0xffffffff then acc
        else offsets_loop buf (pos + 4) (acc @ [offset])
      else acc)"
  by pat_completeness auto
termination
  by (relation "measure (\<lambda>(buf, pos, acc). length buf - pos)") auto

declare offsets_loop.simps [simp del]

definition readOffsets :: "byte list \<Rightarrow> int32 list result" where
  "readOffsets buf =
     (if length buf < 12 then Err ErrTooShort
      else
        let plo = Uint32 (drop 8 buf) in
        if plo < 12 \<or> int (unat plo) \<ge> int (length buf) - 4 then Err ErrPloOutOfRange
        else if buf ! unat plo \<noteq> 7 then Err ErrCannotFindPlo
        else Ok (offsets_loop buf (unat plo + 1) []))"

section \<open>Values\<close>

text \<open>
  The \<^verbatim>\<open>Value\<close> struct carries a type tag and one payload per type; the decoder fills
  the payload of the tag only. \<open>'d\<close> stands for \<^verbatim>\<open>float64\<close>.
\<close>

datatype 'd Value =
    VNull
  | VHash "(gostring \<times> 'd Value) list"
  | VArray "'d Value list"
  | VString gostring
  | VInteger int
  | VDouble 'd

text \<open>
  \<^verbatim>\<open>strconv.ParseInt(num, 10, 64)\<close> of Go's standard library: an optional sign, then
  one or more decimal digits (no underscores in base 10), and the value must fit a
  signed 64-bit integer. \<open>None\<close> stands for a non-nil error.
\<close>

definition is_digit :: "byte \<Rightarrow> bool" where
  "is_digit c \<longleftrightarrow> 0x30 \<le> c \<and> c \<le> 0x39"

fun digits_value :: "int \<Rightarrow> byte list \<Rightarrow> int" where
  "digits_value acc [] = acc"
| "digits_value acc (c # cs) = digits_value (acc * 10 + (uint c - 0x30)) cs"

definition ParseInt :: "gostring \<Rightarrow> int option" where
  "ParseInt s =
     (case s of
        [] \<Rightarrow> None
      | c # cs \<Rightarrow>
          let neg = (c = 0x2d);
              ds = (if c = 0x2b \<or> c = 0x2d then cs else s)
          in
            if ds = [] \<or> \<not> list_all is_digit ds then None
            else
              let un = digits_value 0 ds in
              if neg then (if un > 2 ^ 63 then None else Some (- un))
              else (if un \<ge> 2 ^ 63 then None else Some un))"

text \<open>
  \<^verbatim>\<open>strconv.ParseFloat(num, 64)\<close> of the standard library returns the float64 nearest to
  the literal. A float64 is modelled by its value: a finite one by the real number it
  stands for. Two parts of the function are fixed by its documentation alone and are
  modelled; the rest (rounding, exponents, hexadecimal literals, infinities, NaN) is the
  parameter \<open>lib\<close>.
  \<^item> A decimal literal, an optional sign and digits with an optional point, whose digits
    read as a number below \<open>2 ^ 53\<close> and whose value \<open>m / 10 ^ k\<close> is a multiple of
    \<open>2 ^ - k\<close>, is a float64 itself, so it is the result. (Negative zero is left to \<open>lib\<close>.)
  \<^item> A text that is empty or starts with a byte other than a sign, a digit, a point or
    one of the letters \<open>i\<close>, \<open>I\<close>, \<open>n\<close>, \<open>N\<close> is a syntax error.
\<close>

datatype float64 = Finite real | NegZero | PosInf | NegInf | NaN








section \<open>The value decoder: \<^verbatim>\<open>readHash\<close> and \<^verbatim>\<open>readValue\<close>\<close>

text \<open>
  \<open>pf\<close> is \<^verbatim>\<open>strconv.ParseFloat(num, 64)\<close>, taken as a parameter here (\<open>None\<close> for a
  non-nil error) and modelled by \<open>ParseFloat lib\<close>; \<open>offs\<close> is the reader's offset table and \<open>orig\<close> the
  whole deciphered block. The two \<^verbatim>\<open>for i := int32(0); i < numEntries; i++\<close> loops are
  \<open>readHashLoop\<close> and \<open>readArrayLoop\<close>, counting the iterations left. \<^verbatim>\<open>make\<close> with a
  negative capacity panics; its memory is taken to be available otherwise.
  \<open>srt\<close> is \<^verbatim>\<open>sort.Slice\<close> with the comparison \<^verbatim>\<open>hash[i].Key < hash[j].Key\<close>, also a
  parameter: the library orders the entries by key and leaves the order of entries with
  equal keys open. On entries with distinct keys it is \<open>sort_key fst\<close>.
\<close>

lemma and_then_cong [fundef_cong]:
  "m = m' \<Longrightarrow> (\<And>x. m' = Ok x \<Longrightarrow> f x = f' x) \<Longrightarrow> and_then m f = and_then m' f'"
  by (simp add: and_then_def split: result.splits)

function readHash :: "((gostring \<times> 'd Value) list \<Rightarrow> (gostring \<times> 'd Value) list)
      \<Rightarrow> (gostring \<Rightarrow> 'd option) \<Rightarrow> int32 list \<Rightarrow> byte list \<Rightarrow> byte list
      \<Rightarrow> ('d Value \<times> byte list) result"
  and readHashLoop :: "((gostring \<times> 'd Value) list \<Rightarrow> (gostring \<times> 'd Value) list)
      \<Rightarrow> (gostring \<Rightarrow> 'd option) \<Rightarrow> int32 list \<Rightarrow> byte list \<Rightarrow> nat
      \<Rightarrow> (gostring \<times> 'd Value) list \<Rightarrow> byte list
      \<Rightarrow> ((gostring \<times> 'd Value) list \<times> byte list) result"
  and readValue :: "((gostring \<times> 'd Value) list \<Rightarrow> (gostring \<times> 'd Value) list)
      \<Rightarrow> (gostring \<Rightarrow> 'd option) \<Rightarrow> int32 list \<Rightarrow> byte list \<Rightarrow> byte list
      \<Rightarrow> ('d Value \<times> byte list) result"
  and readArrayLoop :: "((gostring \<times> 'd Value) list \<Rightarrow> (gostring \<times> 'd Value) list)
      \<Rightarrow> (gostring \<Rightarrow> 'd option) \<Rightarrow> int32 list \<Rightarrow> byte list \<Rightarrow> nat
      \<Rightarrow> 'd Value list \<Rightarrow> byte list \<Rightarrow> ('d Value list \<times> byte list) result"
where
  "readHash srt pf offs orig buf =
     and_then (readByte buf) (\<lambda>(t, buf1).
       if t \<noteq> 2 then Err ErrNonHash
       else
         and_then (readInt buf1) (\<lambda>(numEntries, buf2).
           if numEntries = 0 then Err ErrTooShort
           else if sint numEntries < 0 then Panic MakesliceCapOutOfRange
           else
             and_then (readHashLoop srt pf offs orig (nat (sint numEntries)) [] buf2) (\<lambda>(hash, buf3).
               and_then (readByte buf3) (\<lambda>(t, buf4).
                 if t \<noteq> 2 then Err ErrUnterminatedHash
                 else Ok (VHash (srt hash), buf4)))))"
| "readHashLoop srt pf offs orig n hash buf =
     (if n = 0 then Ok (hash, buf)
      else
        and_then (readInt buf) (\<lambda>(offset, buf1).
          and_then (readString offs orig offset) (\<lambda>key.
            and_then (readValue srt pf offs orig buf1) (\<lambda>(entry, buf2).
              readHashLoop srt pf offs orig (n - 1) (hash @ [(key, entry)]) buf2))))"
| "readValue srt pf offs orig buf =
     (if length buf < 1 then Err ErrTooShort
      else
        let typ = buf ! 0 in
        if typ = 1 then Ok (VNull, drop 1 buf)
        else if typ = 2 then readHash srt pf offs orig buf
        else if typ = 3 then
          and_then (readInt (drop 1 buf)) (\<lambda>(numEntries, buf1).
            if sint numEntries < 0 then Panic MakesliceCapOutOfRange
            else
              and_then (readArrayLoop srt pf offs orig (nat (sint numEntries)) [] buf1) (\<lambda>(array, buf2).
                and_then (readByte buf2) (\<lambda>(t, buf3).
                  if t \<noteq> 3 then Err ErrUnterminatedArray
                  else Ok (VArray array, buf3))))
        else if typ = 4 then
          and_then (readInt (drop 1 buf)) (\<lambda>(ofs, buf1).
            and_then (readString offs orig ofs) (\<lambda>str. Ok (VString str, buf1)))
        else if typ = 6 \<or> typ = 5 then
          and_then (readInt (drop 1 buf)) (\<lambda>(ofs, buf1).
            and_then (readString offs orig ofs) (\<lambda>num.
              if typ = 5 then
                (case ParseInt num of
                   None \<Rightarrow> Err (ErrInvalidInteger num)
                 | Some i \<Rightarrow> Ok (VInteger i, buf1))
              else
                (case pf num of
                   None \<Rightarrow> Err (ErrInvalidDouble num)
                 | Some d \<Rightarrow> Ok (VDouble d, buf1))))
        else Err (ErrUnsupportedValue typ))"
| "readArrayLoop srt pf offs orig n array buf =
     (if n = 0 then Ok (array, buf)
      else
        and_then (readValue srt pf offs orig buf) (\<lambda>(v, buf1).
          readArrayLoop srt pf offs orig (n - 1) (array @ [v]) buf1))"
  by pat_completeness auto

text \<open>Every successful read consumes input, which is what makes the decoder terminate.\<close>

lemma and_then_Ok_iff: "and_then m f = Ok y \<longleftrightarrow> (\<exists>x. m = Ok x \<and> f x = Ok y)"
  by (simp add: and_then_def split: result.splits)

lemma readByte_Ok: "readByte buf = Ok (t, rest) \<Longrightarrow> length rest < length buf"
  by (auto simp: readByte_def split: if_splits)

lemma readInt_Ok: "readInt buf = Ok (x, rest) \<Longrightarrow> length rest < length buf"
  by (auto simp: readInt_def split: if_splits)

lemma read_shrinks_dom:
  "readHash_readHashLoop_readValue_readArrayLoop_dom (Inl (Inl (srt, pf, offs, orig, buf))) \<Longrightarrow>
     (\<forall>v rest. readHash srt pf offs orig buf = Ok (v, rest) \<longrightarrow> length rest < length buf)"
  "readHash_readHashLoop_readValue_readArrayLoop_dom (Inl (Inr (srt, pf, offs, orig, n, hash, buf1))) \<Longrightarrow>
     (\<forall>h rest. readHashLoop srt pf offs orig n hash buf1 = Ok (h, rest) \<longrightarrow> length rest \<le> length buf1)"
  "readHash_readHashLoop_readValue_readArrayLoop_dom (Inr (Inl (srt, pf, offs, orig, buf2))) \<Longrightarrow>
     (\<forall>v rest. readValue srt pf offs orig buf2 = Ok (v, rest) \<longrightarrow> length rest < length buf2)"
  "readHash_readHashLoop_readValue_readArrayLoop_dom (Inr (Inr (srt, pf, offs, orig, k, array, buf3))) \<Longrightarrow>
     (\<forall>a rest. readArrayLoop srt pf offs orig k array buf3 = Ok (a, rest) \<longrightarrow> length rest \<le> length buf3)"
proof (induct srt pf offs orig buf and srt pf offs orig n hash buf1 and srt pf offs orig buf2
          and srt pf offs orig k array buf3
       rule: readHash_readHashLoop_readValue_readArrayLoop.pinduct)
  case (1 srt pf offs orig buf)
  show ?case
  proof (intro allI impI)
    fix v rest
    assume "readHash srt pf offs orig buf = Ok (v, rest)"
    then obtain t b1 n b2 h b3 t' where
      rb: "readByte buf = Ok (t, b1)" and t: "t = 2" and
      ri: "readInt b1 = Ok (n, b2)" and n: "n \<noteq> 0" "\<not> sint n < 0" and
      lp: "readHashLoop srt pf offs orig (nat (sint n)) [] b2 = Ok (h, b3)" and
      rt: "readByte b3 = Ok (t', rest)"
      by (auto simp: readHash.psimps [OF "1.hyps"(1)] and_then_Ok_iff split: if_splits)
    from "1.hyps"(2) [OF rb refl _ ri refl n] t lp have "length b3 \<le> length b2"
      by simp
    with readByte_Ok [OF rb] readInt_Ok [OF ri] readByte_Ok [OF rt]
    show "length rest < length buf"
      by simp
  qed
next
  case (2 srt pf offs orig n hash buf)
  show ?case
  proof (intro allI impI)
    fix h rest
    assume "readHashLoop srt pf offs orig n hash buf = Ok (h, rest)"
    note eq = this [unfolded readHashLoop.psimps [OF "2.hyps"(1)]]
    show "length rest \<le> length buf"
    proof (cases "n = 0")
      case True
      with eq show ?thesis
        by simp
    next
      case False
      with eq obtain off b1 key e b2 where
        ri: "readInt buf = Ok (off, b1)" and
        rs: "readString offs orig off = Ok key" and
        rv: "readValue srt pf offs orig b1 = Ok (e, b2)" and
        lp: "readHashLoop srt pf offs orig (n - 1) (hash @ [(key, e)]) b2 = Ok (h, rest)"
        by (auto simp: and_then_Ok_iff)
      from "2.hyps"(2) [OF False ri refl rs] rv have "length b2 < length b1"
        by simp
      moreover from "2.hyps"(3) [OF False ri refl rs rv refl] lp have "length rest \<le> length b2"
        by simp
      ultimately show ?thesis
        using readInt_Ok [OF ri] by simp
    qed
  qed
next
  case (3 srt pf offs orig buf)
  show ?case
  proof (intro allI impI)
    fix v rest
    assume eq: "readValue srt pf offs orig buf = Ok (v, rest)"
    then have ne: "\<not> length buf < 1"
      by (simp add: readValue.psimps [OF "3.hyps"(1)] split: if_splits)
    consider (null) "buf ! 0 = 1" | (hash) "buf ! 0 = 2" | (array) "buf ! 0 = 3"
      | (other) "buf ! 0 \<noteq> 1" "buf ! 0 \<noteq> 2" "buf ! 0 \<noteq> 3"
      by blast
    then show "length rest < length buf"
    proof cases
      case null
      with eq ne show ?thesis
        by (auto simp: readValue.psimps [OF "3.hyps"(1)])
    next
      case hash
      with eq ne have "readHash srt pf offs orig buf = Ok (v, rest)"
        by (simp add: readValue.psimps [OF "3.hyps"(1)])
      with "3.hyps"(2) [OF ne refl _ hash] hash show ?thesis
        by simp
    next
      case array
      with eq ne obtain n b1 a b2 t where
        ri: "readInt (drop 1 buf) = Ok (n, b1)" and n: "\<not> sint n < 0" and
        lp: "readArrayLoop srt pf offs orig (nat (sint n)) [] b1 = Ok (a, b2)" and
        rt: "readByte b2 = Ok (t, rest)"
        by (auto simp: readValue.psimps [OF "3.hyps"(1)] and_then_Ok_iff split: if_splits)
      from "3.hyps"(3) [OF ne refl _ _ array ri refl n] array lp have "length b2 \<le> length b1"
        by simp
      with readInt_Ok [OF ri] readByte_Ok [OF rt] show ?thesis
        by simp
    next
      case other
      with eq ne obtain x b1 where "readInt (drop 1 buf) = Ok (x, b1)" and "rest = b1"
        by (auto simp: readValue.psimps [OF "3.hyps"(1)] and_then_Ok_iff Let_def
            split: if_splits option.splits)
      with readInt_Ok [of "drop 1 buf" x b1] show ?thesis
        by simp
    qed
  qed
next
  case (4 srt pf offs orig n array buf)
  show ?case
  proof (intro allI impI)
    fix a rest
    assume "readArrayLoop srt pf offs orig n array buf = Ok (a, rest)"
    note eq = this [unfolded readArrayLoop.psimps [OF "4.hyps"(1)]]
    show "length rest \<le> length buf"
    proof (cases "n = 0")
      case True
      with eq show ?thesis
        by simp
    next
      case False
      with eq obtain v b1 where
        rv: "readValue srt pf offs orig buf = Ok (v, b1)" and
        lp: "readArrayLoop srt pf offs orig (n - 1) (array @ [v]) b1 = Ok (a, rest)"
        by (auto simp: and_then_Ok_iff)
      from "4.hyps"(2) [OF False] rv have "length b1 < length buf"
        by simp
      moreover from "4.hyps"(3) [OF False rv refl] lp have "length rest \<le> length b1"
        by simp
      ultimately show ?thesis by simp
    qed
  qed
qed

termination readHash
  apply (relation "measure (\<lambda>x. case x of
      Inl (Inl (srt, pf, offs, orig, buf)) \<Rightarrow> 3 * length buf
    | Inl (Inr (srt, pf, offs, orig, n, hash, buf)) \<Rightarrow> 3 * length buf + 2
    | Inr (Inl (srt, pf, offs, orig, buf)) \<Rightarrow> 3 * length buf + 1
    | Inr (Inr (srt, pf, offs, orig, n, array, buf)) \<Rightarrow> 3 * length buf + 2)")
        apply simp
       apply (auto dest!: readByte_Ok readInt_Ok read_shrinks_dom(3))
  done

declare readHash.simps [simp del] readHashLoop.simps [simp del]
  readValue.simps [simp del] readArrayLoop.simps [simp del]

section \<open>Key lookup: \<^verbatim>\<open>Find\<close>\<close>

text \<open>
  \<^verbatim>\<open>sort.Search\<close> of the standard library is a binary search for the least index in
  \<open>[0, n)\<close> at which \<open>f\<close> holds: \<^verbatim>\<open>i, j := 0, n; for i < j { h := int(uint(i+j) >> 1);
  if !f(h) { i = h + 1 } else { j = h } }; return i\<close>.
\<close>

function search_loop :: "(nat \<Rightarrow> bool) \<Rightarrow> nat \<Rightarrow> nat \<Rightarrow> nat" where
  "search_loop f i j =
     (if i < j
      then
        let h = (i + j) div 2 in
        if \<not> f h then search_loop f (h + 1) j else search_loop f i h
      else i)"
  by pat_completeness auto
termination
  by (relation "measure (\<lambda>(f, i, j). j - i)") auto

declare search_loop.simps [simp del]

definition Search :: "nat \<Rightarrow> (nat \<Rightarrow> bool) \<Rightarrow> nat" where
  "Search n f = search_loop f 0 n"

text \<open>
  \<^verbatim>\<open>strings.ToLower\<close> of the standard library: when every byte of the string is below
  \<^verbatim>\<open>utf8.RuneSelf\<close> (\<open>0x80\<close>) it maps \<^verbatim>\<open>'A'..'Z'\<close> to \<^verbatim>\<open>'a'..'z'\<close> byte by byte and keeps
  every other byte; otherwise it returns \<^verbatim>\<open>strings.Map(unicode.ToLower, s)\<close>, which
  depends on the Unicode tables and is the parameter \<open>u\<close>.
\<close>

definition lower_byte :: "byte \<Rightarrow> byte" where
  "lower_byte c = (if 0x41 \<le> c \<and> c \<le> 0x5a then c + 0x20 else c)"

definition ToLower :: "(gostring \<Rightarrow> gostring) \<Rightarrow> gostring \<Rightarrow> gostring" where
  "ToLower u s = (if list_all (\<lambda>c. c < 0x80) s then map lower_byte s else u s)"

text \<open>
  The receiver of \<^verbatim>\<open>Find\<close> is a pointer that may be \<^verbatim>\<open>nil\<close>, and so is its result:
  both are options.
\<close>

fun Find :: "(gostring \<Rightarrow> gostring) \<Rightarrow> 'd Value option \<Rightarrow> gostring \<Rightarrow> 'd Value option" where
  "Find u (Some (VHash hash)) name =
     (let idx = Search (length hash) (\<lambda>i. fst (hash ! i) \<ge> name) in
      if idx < length hash \<and> name = ToLower u (fst (hash ! idx))
      then Some (snd (hash ! idx))
      else None)"
| "Find u _ name = None"

section \<open>The container: \<^verbatim>\<open>ReadPack\<close>\<close>

text \<open>
  The byte source is a file: a finite sequence of bytes read from position 0.
  \<^verbatim>\<open>io.ReadFull\<close> of \<open>n\<close> bytes at position \<open>pos\<close> reads nothing when \<open>n = 0\<close>, fails
  with \<^verbatim>\<open>io.EOF\<close> when no byte is left and with \<^verbatim>\<open>io.ErrUnexpectedEOF\<close> when fewer than
  \<open>n\<close> are; \<^verbatim>\<open>Seek\<close> fails on a negative offset.
\<close>

definition ReadFull :: "byte list \<Rightarrow> nat \<Rightarrow> nat \<Rightarrow> byte list result" where
  "ReadFull src pos n =
     (if n = 0 then Ok []
      else if length src \<le> pos then Err ErrEOF
      else if length src < pos + n then Err ErrUnexpectedEOF
      else Ok (take n (drop pos src)))"

text \<open>
  The loop \<^verbatim>\<open>for r.method = 3; r.method >= 0; r.method--\<close> of \<^verbatim>\<open>ReadPack\<close>; it leaves
  by \<^verbatim>\<open>goto supported\<close> with the method and the deciphered block.
\<close>

function probe :: "byte list \<Rightarrow> int32 \<Rightarrow> int32 \<Rightarrow> int \<Rightarrow> (int \<times> byte list) result" where
  "probe src offset sz method =
     (if method \<ge> 0
      then
        if sint offset < 0 then Err ErrSeek
        else
          and_then (ReadFull src (nat (sint offset)) (nat (sint sz))) (\<lambda>raw.
            let buf = DecodeXOR method raw in
            if length buf < 4 then Err ErrTooShort
            else if Uint32 buf = 0x04030201 then Ok (method, buf)
            else probe src offset sz (method - 1))
      else Err ErrUnsupportedVersion)"
  by pat_completeness auto
termination
  by (relation "measure (\<lambda>(src, offset, sz, method). nat (method + 1))") auto

declare probe.simps [simp del]

text \<open>
  The fields of \<^verbatim>\<open>Reader\<close> that \<^verbatim>\<open>ReadPack\<close> sets; the field \<^verbatim>\<open>method\<close> is \<open>method'\<close>
  here.
\<close>

record 'd Reader =
  method' :: int
  offsets :: "int32 list"
  entries :: "'d Value"

text \<open>The part of \<^verbatim>\<open>ReadPack\<close> after the label \<^verbatim>\<open>supported\<close>.\<close>

definition supported :: "((gostring \<times> 'd Value) list \<Rightarrow> (gostring \<times> 'd Value) list)
      \<Rightarrow> (gostring \<Rightarrow> 'd option) \<Rightarrow> int \<Rightarrow> byte list \<Rightarrow> 'd Reader result" where
  "supported srt pf m buf =
     and_then (readOffsets buf) (\<lambda>offs.
       and_then (readHash srt pf offs buf (drop 12 buf)) (\<lambda>(es, rest).
         Ok \<lparr>method' = m, offsets = offs, entries = es\<rparr>))"

definition ReadPack :: "((gostring \<times> 'd Value) list \<Rightarrow> (gostring \<times> 'd Value) list)
      \<Rightarrow> (gostring \<Rightarrow> 'd option) \<Rightarrow> byte list \<Rightarrow> 'd Reader result" where
  "ReadPack srt pf src =
     and_then (ReadFull src 0 4) (\<lambda>b.
       let offset = Uint32 b in
       and_then (ReadFull src 4 4) (\<lambda>b.
         let sz = Uint32 b in
         if sint sz < 0 then Panic MakesliceLenOutOfRange
         else
           and_then (probe src offset sz 3) (\<lambda>(m, buf). supported srt pf m buf)))"

section \<open>Properties of the cipher\<close>

lemma length_xor_loop [simp]: "length (xor_loop code prev i buf) = length buf"
  by (induction buf arbitrary: prev i) (simp_all add: Let_def)

lemma length_flip_pair [simp]: "length (flip_pair i buf) = length buf"
  by (simp add: flip_pair_def)

lemma length_pair_loop [simp]: "length (pair_loop i buf) = length buf"
proof (induction i buf rule: pair_loop.induct)
  case (1 i buf)
  then show ?case
    by (subst pair_loop.simps) simp
qed

lemma length_DecodeXOR [simp]: "length (DecodeXOR m buf) = length buf"
  by (simp add: DecodeXOR_def Let_def)

lemma xor_cancel_byte: "(a::byte) XOR k = b XOR k \<Longrightarrow> a = b"
proof -
  assume "a XOR k = b XOR k"
  then have "(a XOR k) XOR k = (b XOR k) XOR k"
    by simp
  then show "a = b"
    by (simp add: xor.assoc)
qed

text \<open>The first pass can be undone: from equal outputs the inputs are recovered byte by byte.\<close>

lemma xor_loop_inj:
  "length a = length b \<Longrightarrow> xor_loop code prev i a = xor_loop code prev i b \<Longrightarrow> a = b"
proof (induction a arbitrary: b prev i)
  case Nil
  then show ?case by simp
next
  case (Cons v vs)
  then obtain w ws where b: "b = w # ws"
    by (cases b) auto
  from Cons.prems(2) have hd: "v = w"
    unfolding b by (auto simp: Let_def dest!: xor_cancel_byte)
  with Cons.prems b
  have "xor_loop code (w XOR (magicBytes ! (i mod 16)) XOR (of_nat (i * code))) (i + 1) vs
      = xor_loop code (w XOR (magicBytes ! (i mod 16)) XOR (of_nat (i * code))) (i + 1) ws"
    by (simp add: Let_def)
  with Cons.IH Cons.prems(1) b have "vs = ws"
    by auto
  with hd b show ?case by simp
qed

lemma flip_pair_twice: "i + 1 < length buf \<Longrightarrow> flip_pair i (flip_pair i buf) = buf"
  by (simp add: flip_pair_def list_eq_iff_nth_eq nth_list_update xor.assoc)

lemma pair_loop_inj:
  "length a = length b \<Longrightarrow> pair_loop i a = pair_loop i b \<Longrightarrow> a = b"
proof (induction i a arbitrary: b rule: pair_loop.induct)
  case (1 i buf)
  show ?case
  proof (cases "i + 1 < length buf")
    case True
    with "1.prems" have "pair_loop (i + 16) (flip_pair i buf) = pair_loop (i + 16) (flip_pair i b)"
      by (simp add: pair_loop.simps [of i])
    with "1.IH" [OF True, of "flip_pair i b"] "1.prems"(1)
    have "flip_pair i buf = flip_pair i b"
      by simp
    then have "flip_pair i (flip_pair i buf) = flip_pair i (flip_pair i b)"
      by simp
    with True "1.prems"(1) show ?thesis
      by (simp add: flip_pair_twice)
  next
    case False
    with "1.prems" show ?thesis
      by (simp add: pair_loop.simps [of i])
  qed
qed

lemma DecodeXOR_eqD: "DecodeXOR m a = DecodeXOR m b \<Longrightarrow> a = b"
proof -
  assume eq: "DecodeXOR m a = DecodeXOR m b"
  then have "length (DecodeXOR m a) = length (DecodeXOR m b)"
    by simp
  then have len: "length a = length b"
    by simp
  define code :: nat where "code = (if m \<noteq> 2 then 0x6d else 0xad)"
  from eq len have "xor_loop code (of_nat (length a)) 0 a = xor_loop code (of_nat (length a)) 0 b"
    by (auto simp: DecodeXOR_def Let_def code_def split: if_splits intro: pair_loop_inj)
  with len show ?thesis
    by (rule xor_loop_inj)
qed

lemma DecodeXOR_twice_short:
  "length buf \<le> 1 \<Longrightarrow> DecodeXOR m (DecodeXOR m buf) = buf"
proof (cases buf)
  case Nil
  then show ?thesis by (simp add: DecodeXOR_def pair_loop.simps)
next
  case (Cons v vs)
  assume "length buf \<le> 1"
  with Cons have "vs = []" by simp
  with Cons show ?thesis
    by (simp add: DecodeXOR_def pair_loop.simps Let_def xor.assoc xor.left_commute)
qed

text \<open>The second pass starts at index 5 and leaves everything before its start alone.\<close>

lemma pair_loop_take: "take i (pair_loop i buf) = take i buf"
proof (induction i buf rule: pair_loop.induct)
  case (1 i buf)
  show ?case
  proof (cases "i + 1 < length buf")
    case True
    from "1.IH" [OF True]
    have "take i (take (i + 16) (pair_loop (i + 16) (flip_pair i buf)))
        = take i (take (i + 16) (flip_pair i buf))"
      by simp
    then have "take i (pair_loop (i + 16) (flip_pair i buf)) = take i (flip_pair i buf)"
      by (simp add: min_def)
    with True show ?thesis
      by (simp add: pair_loop.simps [of i] flip_pair_def)
  next
    case False
    then show ?thesis by (simp add: pair_loop.simps [of i])
  qed
qed

text \<open>
  C1. Applying \<^verbatim>\<open>DecodeXOR\<close> twice with the same method does not restore the buffer in
  general: the rolling byte of the first pass is the previous keyed input byte, so a
  second application leaves the XOR of neighbouring bytes behind. What holds for every
  method (any integer, the four known ones included): the transform keeps the length
  and is injective, so it can be undone, and on a buffer of at most one byte applying
  it twice gives the buffer back.
\<close>

theorem DecodeXOR_injective_twice_short:
  "inj (DecodeXOR m) \<and> length (DecodeXOR m buf) = length buf \<and>
   (length buf \<le> 1 \<longrightarrow> DecodeXOR m (DecodeXOR m buf) = buf)"
  by (simp add: DecodeXOR_twice_short inj_def) (blast dest: DecodeXOR_eqD)

theorem DecodeXOR_injective_twice_short_witness:
  "length [7::byte] \<le> 1 \<and> DecodeXOR 3 (DecodeXOR 3 [7]) = [7]"
  using DecodeXOR_injective_twice_short [of 3 "[7]"] by simp

text \<open>
  The claim as stated fails on the two-byte buffer of zeros under each of the four
  methods: the second byte comes back as \<open>0x4d\<close>.
\<close>

theorem DecodeXOR_twice_counterexample:
  "DecodeXOR 0 (DecodeXOR 0 [0, 0]) = [0, 0x4d] \<and>
   DecodeXOR 1 (DecodeXOR 1 [0, 0]) = [0, 0x4d] \<and>
   DecodeXOR 2 (DecodeXOR 2 [0, 0]) = [0, 0x4d] \<and>
   DecodeXOR 3 (DecodeXOR 3 [0, 0]) = [0, 0x4d]"
  by (simp add: DecodeXOR_def magicBytes_def pair_loop.simps)

section \<open>Properties of string resolution\<close>

lemma scan_end_takeWhile:
  "end \<le> length buf \<Longrightarrow> scan_end buf end = end + length (takeWhile (\<lambda>b. b \<noteq> 0) (drop end buf))"
proof (induction buf "end" rule: scan_end.induct)
  case (1 buf e)
  show ?case
  proof (cases "length buf > e \<and> buf ! e \<noteq> 0")
    case True
    then have "drop e buf = buf ! e # drop (e + 1) buf"
      by (simp add: Cons_nth_drop_Suc)
    with True "1.IH" show ?thesis
      by (simp add: scan_end.simps [of buf e])
  next
    case False
    show ?thesis
    proof (cases "length buf > e")
      case True
      then have "drop e buf = buf ! e # drop (e + 1) buf"
        by (simp add: Cons_nth_drop_Suc)
      with False True show ?thesis
        by (simp add: scan_end.simps [of buf e])
    next
      case False
      then show ?thesis
        by (simp add: scan_end.simps [of buf e])
    qed
  qed
qed

lemma take_scan_end: "take (scan_end buf 0) buf = takeWhile (\<lambda>b. b \<noteq> 0) buf"
proof -
  have "take (length (takeWhile (\<lambda>b. b \<noteq> 0) buf)) buf = takeWhile (\<lambda>b. b \<noteq> 0) buf"
    by (induction buf) auto
  then show ?thesis
    by (simp add: scan_end_takeWhile)
qed

lemma readString_takeWhile:
  "readString offs buf idx =
     (if sint idx < 0 \<or> int (length offs) \<le> sint idx
      then Err (ErrInvalidOffsetIndex (sint idx))
      else if sint (offs ! nat (sint idx)) < 0 \<or> int (length buf) \<le> sint (offs ! nat (sint idx))
      then Err (ErrInvalidOffset (sint (offs ! nat (sint idx))))
      else Ok (takeWhile (\<lambda>b. b \<noteq> 0) (drop (nat (sint (offs ! nat (sint idx)))) buf)))"
  by (auto simp: readString_def Let_def take_scan_end)

text \<open>
  C8. String resolution of a table index \<open>idx\<close> (an \<^verbatim>\<open>int32\<close>): it fails with the
  invalid-index error exactly when \<open>idx\<close> is negative or at least the length of the
  table; otherwise, with \<open>ofs\<close> the table entry at \<open>idx\<close>, it fails with the
  invalid-offset error exactly when \<open>ofs\<close> is negative or at least the length of the
  block; otherwise it returns the bytes of the block from \<open>ofs\<close> up to, and without, the
  first zero byte, or up to the end of the block when there is none.
\<close>

theorem readString_spec:
  "readString offs buf idx =
     (if sint idx < 0 \<or> int (length offs) \<le> sint idx
      then Err (ErrInvalidOffsetIndex (sint idx))
      else if sint (offs ! nat (sint idx)) < 0 \<or> int (length buf) \<le> sint (offs ! nat (sint idx))
      then Err (ErrInvalidOffset (sint (offs ! nat (sint idx))))
      else Ok (takeWhile (\<lambda>b. b \<noteq> 0) (drop (nat (sint (offs ! nat (sint idx)))) buf)))"
  by (rule readString_takeWhile)

theorem readString_spec_witness:
  "readString [0, 2] [0x61, 0x62, 0x63, 0, 0x64] 1 = Ok [0x63] \<and>
   readString [0, 2] [0x61, 0x62, 0x63, 0, 0x64] 2 = Err (ErrInvalidOffsetIndex 2) \<and>
   readString [0, 2] [0x61, 0x62, 0x63, 0, 0x64] 0xffffffff = Err (ErrInvalidOffsetIndex (- 1)) \<and>
   readString [0, 5] [0x61, 0x62, 0x63, 0, 0x64] 1 = Err (ErrInvalidOffset 5) \<and>
   readString [0, 4] [0x61, 0x62, 0x63, 0, 0x64] 1 = Ok [0x64]"
  by (simp add: readString_spec)

section \<open>Basic facts about the readers\<close>

lemma and_then_simps [simp]:
  "and_then (Ok x) f = f x"
  "and_then (Err e) f = Err e"
  "and_then (Panic p) f = Panic p"
  by (simp_all add: and_then_def)

lemma readByte_Cons [simp]: "readByte (b # rest) = Ok (b, rest)"
  by (simp add: readByte_def)

lemma readByte_Nil [simp]: "readByte [] = Err ErrTooShort"
  by (simp add: readByte_def)

lemma readInt_Cons4 [simp]:
  "readInt (b0 # b1 # b2 # b3 # rest) = Ok (Uint32 [b0, b1, b2, b3], rest)"
  by (simp add: readInt_def Uint32_def)

lemma readInt_short [simp]: "length buf < 4 \<Longrightarrow> readInt buf = Err ErrTooShort"
  by (simp add: readInt_def)

lemma Uint32_zero [simp]: "Uint32 [0, 0, 0, 0] = 0"
  by (simp add: Uint32_def)

lemma Uint32_minus_one [simp]: "Uint32 [0xff, 0xff, 0xff, 0xff] = 0xffffffff"
  by (simp add: Uint32_def)

lemma Uint32_signature [simp]: "Uint32 [1, 2, 3, 4] = 0x04030201"
  by (simp add: Uint32_def)

section \<open>Hash and array counts\<close>

text \<open>
  C6. A hash whose count field is zero is refused, with the very error value that the
  readers return for a buffer that is too short (\<^verbatim>\<open>errTooShort\<close>): the package has no
  error of its own for an empty hash. No value is returned.
\<close>

theorem readHash_zero_count:
  "readHash srt pf offs orig (2 # 0 # 0 # 0 # 0 # rest) = Err ErrTooShort \<and>
   readValue srt pf offs orig (2 # 0 # 0 # 0 # 0 # rest) = Err ErrTooShort \<and>
   readByte [] = Err ErrTooShort \<and> readInt [] = Err ErrTooShort"
  by (simp add: readHash.simps readValue.simps)

text \<open>
  The claim as stated asks for an error distinct from the buffer-too-short kind: an
  empty hash and a hash cut off inside its count field fail with the same error.
\<close>

theorem readHash_zero_count_counterexample:
  "readHash (sort_key fst) (\<lambda>s. None :: unit option) [] [] [2, 0, 0, 0, 0, 2] = Err ErrTooShort \<and>
   readHash (sort_key fst) (\<lambda>s. None :: unit option) [] [] [2, 0, 0] = Err ErrTooShort"
  by (simp add: readHash.simps)

text \<open>
  C4. The decoder does not always return a value or an error. A hash or an array whose
  count field has its top bit set reaches \<^verbatim>\<open>make\<close> with a negative capacity, which
  panics; the container below deciphers under method 3 to a directory whose root hash
  has count \<open>-1\<close>, and a negative directory size panics in the same way.
\<close>

lemma negative_count_block:
  "DecodeXOR 3 [0x58, 0xa8, 0x6c, 0xf9, 0xec, 0x65, 0x25, 0x0c, 0xf8, 0xaf, 0x04,
       0x09, 0xdc, 0xbc, 0xc6, 0x0e, 0x9e, 0xeb, 0xf3, 0xbd, 0x37, 0xac]
   = [0x01, 0x02, 0x03, 0x04, 0x00, 0x00, 0x00, 0x00, 0x11, 0x00, 0x00, 0x00,
      0x02, 0xff, 0xff, 0xff, 0xff, 0x07, 0xff, 0xff, 0xff, 0xff]"
  by (simp add: DecodeXOR_def magicBytes_def pair_loop.simps flip_pair_def Let_def)

theorem negative_count_panics:
  "readHash srt pf offs orig (2 # 0xff # 0xff # 0xff # 0xff # rest) = Panic MakesliceCapOutOfRange \<and>
   readValue srt pf offs orig (3 # 0xff # 0xff # 0xff # 0xff # rest) = Panic MakesliceCapOutOfRange \<and>
   ReadPack srt pf [0x08, 0x00, 0x00, 0x00, 0x16, 0x00, 0x00, 0x00,
       0x58, 0xa8, 0x6c, 0xf9, 0xec, 0x65, 0x25, 0x0c, 0xf8, 0xaf, 0x04,
       0x09, 0xdc, 0xbc, 0xc6, 0x0e, 0x9e, 0xeb, 0xf3, 0xbd, 0x37, 0xac]
     = Panic MakesliceCapOutOfRange \<and>
   ReadPack srt pf [0, 0, 0, 0, 0xff, 0xff, 0xff, 0xff] = Panic MakesliceLenOutOfRange"
proof -
  have "readHash srt pf offs orig (2 # 0xff # 0xff # 0xff # 0xff # rest) = Panic MakesliceCapOutOfRange"
    by (simp add: readHash.simps)
  moreover
  have "readValue srt pf offs orig (3 # 0xff # 0xff # 0xff # 0xff # rest) = Panic MakesliceCapOutOfRange"
    by (simp add: readValue.simps)
  moreover
  have "ReadPack srt pf [0x08, 0x00, 0x00, 0x00, 0x16, 0x00, 0x00, 0x00,
       0x58, 0xa8, 0x6c, 0xf9, 0xec, 0x65, 0x25, 0x0c, 0xf8, 0xaf, 0x04,
       0x09, 0xdc, 0xbc, 0xc6, 0x0e, 0x9e, 0xeb, 0xf3, 0xbd, 0x37, 0xac]
     = Panic MakesliceCapOutOfRange"
    by (simp add: ReadPack_def ReadFull_def probe.simps negative_count_block supported_def
        readOffsets_def Uint32_def offsets_loop.simps readHash.simps)
  moreover
  have "ReadPack srt pf [0, 0, 0, 0, 0xff, 0xff, 0xff, 0xff] = Panic MakesliceLenOutOfRange"
    by (simp add: ReadPack_def ReadFull_def)
  ultimately show ?thesis
    by simp
qed

section \<open>The end of the offset table\<close>

text \<open>
  C5. The table loop runs while \<open>pos + 4 < len(buf)\<close>, so it stops as soon as four or
  fewer bytes remain: an entry that fills the last four bytes of the block is not read,
  although the header check has accepted the table position. One more byte after the
  entry and it is read.
\<close>

theorem readOffsets_last_entry:
  "readOffsets [1, 2, 3, 4, 0, 0, 0, 0, 12, 0, 0, 0, 7, 5, 0, 0, 0] = Ok [] \<and>
   readOffsets [1, 2, 3, 4, 0, 0, 0, 0, 12, 0, 0, 0, 7, 5, 0, 0, 0, 0] = Ok [5]"
  by (simp add: readOffsets_def Uint32_def offsets_loop.simps)

section \<open>Terminators\<close>

lemma readHashLoop_0 [simp]: "readHashLoop srt pf offs orig 0 hash buf = Ok (hash, buf)"
  by (simp add: readHashLoop.simps)

lemma readHashLoop_Suc [simp]:
  "readHashLoop srt pf offs orig (Suc n) hash buf =
     and_then (readInt buf) (\<lambda>(offset, buf1).
       and_then (readString offs orig offset) (\<lambda>key.
         and_then (readValue srt pf offs orig buf1) (\<lambda>(entry, buf2).
           readHashLoop srt pf offs orig n (hash @ [(key, entry)]) buf2)))"
  by (simp add: readHashLoop.simps [of _ _ _ _ "Suc n"])

lemma readArrayLoop_0 [simp]: "readArrayLoop srt pf offs orig 0 array buf = Ok (array, buf)"
  by (simp add: readArrayLoop.simps)

lemma readArrayLoop_Suc [simp]:
  "readArrayLoop srt pf offs orig (Suc n) array buf =
     and_then (readValue srt pf offs orig buf) (\<lambda>(v, buf1).
       readArrayLoop srt pf offs orig n (array @ [v]) buf1)"
  by (simp add: readArrayLoop.simps [of _ _ _ _ "Suc n"])

text \<open>
  C7. After the declared entries of a hash have been decoded, a next byte other than
  tag 2 makes \<^verbatim>\<open>readHash\<close> fail with the unterminated-hash error, and after the declared
  elements of an array a next byte other than tag 3 makes \<^verbatim>\<open>readValue\<close> fail with the
  unterminated-array error. When fewer well-formed entries follow than the count
  declares, the entry loop fails first and the decoder returns the loop's error, whatever
  it is. No value is returned in any of these cases.
\<close>

theorem unterminated_hash_array:
  "(0 < sint (Uint32 [b0, b1, b2, b3]) \<and>
    readHashLoop srt pf offs orig (nat (sint (Uint32 [b0, b1, b2, b3]))) [] buf = Ok (hash, t # rest) \<and>
    t \<noteq> 2
      \<longrightarrow> readHash srt pf offs orig (2 # b0 # b1 # b2 # b3 # buf) = Err ErrUnterminatedHash) \<and>
   (0 \<le> sint (Uint32 [b0, b1, b2, b3]) \<and>
    readArrayLoop srt pf offs orig (nat (sint (Uint32 [b0, b1, b2, b3]))) [] buf = Ok (array, t # rest) \<and>
    t \<noteq> 3
      \<longrightarrow> readValue srt pf offs orig (3 # b0 # b1 # b2 # b3 # buf) = Err ErrUnterminatedArray) \<and>
   (0 < sint (Uint32 [b0, b1, b2, b3]) \<and>
    readHashLoop srt pf offs orig (nat (sint (Uint32 [b0, b1, b2, b3]))) [] buf = Err e
      \<longrightarrow> readHash srt pf offs orig (2 # b0 # b1 # b2 # b3 # buf) = Err e) \<and>
   (0 \<le> sint (Uint32 [b0, b1, b2, b3]) \<and>
    readArrayLoop srt pf offs orig (nat (sint (Uint32 [b0, b1, b2, b3]))) [] buf = Err e
      \<longrightarrow> readValue srt pf offs orig (3 # b0 # b1 # b2 # b3 # buf) = Err e)"
proof -
  have nz: "0 < sint (Uint32 [b0, b1, b2, b3]) \<Longrightarrow> Uint32 [b0, b1, b2, b3] \<noteq> 0"
    by auto
  show ?thesis
    by (auto simp: readHash.simps [of _ _ _ _ "2 # _"] readValue.simps [of _ _ _ _ "3 # _"] dest: nz)
qed

text \<open>
  A table with the key \<open>a\<close> at index 0. A hash of one entry followed by tag 3, an array
  of one null followed by tag 2, and a hash and an array that declare two entries and
  hold one.
\<close>

lemma Uint32_small [simp]: "Uint32 [1, 0, 0, 0] = 1" "Uint32 [2, 0, 0, 0] = 2"
  by (simp_all add: Uint32_def)

lemma one_entry_loop:
  "readHashLoop srt pf [0] [0x61, 0] (Suc 0) hash (0 # 0 # 0 # 0 # 1 # rest)
     = Ok (hash @ [([0x61], VNull)], rest)"
  by (simp add: readValue.simps readString_takeWhile)

lemma one_null_loop:
  "readArrayLoop srt pf offs orig (Suc 0) [] (1 # rest) = Ok ([VNull], rest)"
  by (simp add: readValue.simps)

lemma two_entries_loop:
  "readHashLoop srt pf [0] [0x61, 0] 2 [] [0, 0, 0, 0, 1, 2] = Err ErrTooShort"
proof -
  have "readHashLoop srt pf [0] [0x61, 0] (Suc (Suc 0)) [] [0, 0, 0, 0, 1, 2] = Err ErrTooShort"
    by (subst readHashLoop_Suc) (simp add: readValue.simps readString_takeWhile)
  then show ?thesis
    by (simp add: numeral_2_eq_2)
qed

lemma two_nulls_loop:
  "readArrayLoop srt pf offs orig 2 [] [1] = Err ErrTooShort"
proof -
  have "readArrayLoop srt pf offs orig (Suc (Suc 0)) [] [1] = Err ErrTooShort"
    by (simp add: readValue.simps)
  then show ?thesis
    by (simp add: numeral_2_eq_2)
qed

theorem unterminated_hash_array_witness:
  "readHash (sort_key fst) (\<lambda>s. None :: unit option) [0] [0x61, 0] [2, 1, 0, 0, 0, 0, 0, 0, 0, 1, 3]
     = Err ErrUnterminatedHash \<and>
   readValue (sort_key fst) (\<lambda>s. None :: unit option) [0] [0x61, 0] [3, 1, 0, 0, 0, 1, 2]
     = Err ErrUnterminatedArray \<and>
   readHash (sort_key fst) (\<lambda>s. None :: unit option) [0] [0x61, 0] [2, 2, 0, 0, 0, 0, 0, 0, 0, 1, 2]
     = Err ErrTooShort \<and>
   readValue (sort_key fst) (\<lambda>s. None :: unit option) [0] [0x61, 0] [3, 2, 0, 0, 0, 1]
     = Err ErrTooShort"
proof -
  let ?pf = "\<lambda>s. None :: unit option"
  have "readHash (sort_key fst) ?pf [0] [0x61, 0] [2, 1, 0, 0, 0, 0, 0, 0, 0, 1, 3] = Err ErrUnterminatedHash"
    using unterminated_hash_array [of 1 0 0 0 "sort_key fst" ?pf "[0]" "[0x61, 0]"
        "[0, 0, 0, 0, 1, 3]" "[([0x61], VNull)]" 3 "[]", THEN conjunct1]
    by (simp add: one_entry_loop del: readHashLoop_Suc)
  moreover
  have "readValue (sort_key fst) ?pf [0] [0x61, 0] [3, 1, 0, 0, 0, 1, 2] = Err ErrUnterminatedArray"
    using unterminated_hash_array [of 1 0 0 0 "sort_key fst" ?pf "[0]" "[0x61, 0]"
        "[1, 2]" _ 2 "[]" "[VNull]", THEN conjunct2, THEN conjunct1]
    by (simp add: one_null_loop del: readArrayLoop_Suc)
  moreover
  have "readHash (sort_key fst) ?pf [0] [0x61, 0] [2, 2, 0, 0, 0, 0, 0, 0, 0, 1, 2] = Err ErrTooShort"
    using unterminated_hash_array [of 2 0 0 0 "sort_key fst" ?pf "[0]" "[0x61, 0]"
        "[0, 0, 0, 0, 1, 2]" _ _ _ _ ErrTooShort, THEN conjunct2, THEN conjunct2, THEN conjunct1]
    by (simp add: two_entries_loop)
  moreover
  have "readValue (sort_key fst) ?pf [0] [0x61, 0] [3, 2, 0, 0, 0, 1] = Err ErrTooShort"
    using unterminated_hash_array [of 2 0 0 0 "sort_key fst" ?pf "[0]" "[0x61, 0]"
        "[1]" _ _ _ _ ErrTooShort, THEN conjunct2, THEN conjunct2, THEN conjunct2]
    by (simp add: two_nulls_loop)
  ultimately show ?thesis
    by simp
qed

text \<open>
  The claim as stated fails: a hash that declares two entries and is followed by one
  entry and the terminator does not fail with the unterminated-hash error. It fails
  with the error of the second entry: the buffer is too short for its key index.
\<close>

theorem fewer_entries_counterexample:
  "readHash (sort_key fst) (\<lambda>s. None :: unit option) [0] [0x61, 0] [2, 2, 0, 0, 0, 0, 0, 0, 0, 1, 2]
     = Err ErrTooShort"
  by (simp add: readHash.simps [of _ _ _ _ "2 # _"] two_entries_loop)

section \<open>The signature under the four methods\<close>

lemma Uint32_byte1: "ucast (drop_bit 8 (Uint32 [a, b, c, d])) = b"
  by (rule bit_word_eqI) (auto simp: Uint32_def bit_simps dest: bit_imp_le_length)

lemma Uint32_nth4: "4 \<le> length buf \<Longrightarrow> Uint32 buf = Uint32 [buf ! 0, buf ! 1, buf ! 2, buf ! 3]"
  by (simp add: Uint32_def)

lemma Uint32_signature_byte1:
  assumes "4 \<le> length buf" "Uint32 buf = 0x04030201"
  shows "buf ! Suc 0 = 2"
proof -
  from assms have eq: "Uint32 [buf ! 0, buf ! 1, buf ! 2, buf ! 3] = 0x04030201"
    by (simp only: Uint32_nth4)
  have "buf ! Suc 0 = ucast (drop_bit 8 (Uint32 [buf ! 0, buf ! 1, buf ! 2, buf ! 3]))"
    by (simp only: Uint32_byte1 One_nat_def)
  also have "\<dots> = ucast (drop_bit 8 (0x04030201 :: 32 word))"
    by (simp only: eq)
  also have "\<dots> = 2"
    by simp
  finally show ?thesis .
qed

text \<open>The first pass on the first two bytes, which is all the signature test needs here.\<close>

lemma xor_loop_nth1:
  "Suc 0 < length buf \<Longrightarrow>
   xor_loop code prev 0 buf ! Suc 0 = of_nat code XOR (buf ! Suc 0 XOR 0xd0 XOR buf ! 0 XOR 0x4f)"
proof -
  assume "Suc 0 < length buf"
  then obtain a b rest where buf: "buf = a # b # rest"
    by (cases buf; cases "tl buf") auto
  have "xor_loop code prev 0 (a # b # rest) ! Suc 0 = (b XOR 0xd0 XOR of_nat code) XOR (a XOR 0x4f)"
    by (simp add: Let_def magicBytes_def xor.assoc)
  also have "\<dots> = of_nat code XOR (b XOR 0xd0 XOR a XOR 0x4f)"
    by (simp add: xor.assoc xor.left_commute)
  finally show ?thesis
    by (simp add: buf)
qed

lemma pair_loop_nth_below: "j < i \<Longrightarrow> j < length buf \<Longrightarrow> pair_loop i buf ! j = buf ! j"
proof -
  assume j: "j < i" "j < length buf"
  have "pair_loop i buf ! j = take i (pair_loop i buf) ! j"
    using j by simp
  also have "\<dots> = take i buf ! j"
    by (simp only: pair_loop_take)
  also have "\<dots> = buf ! j"
    using j by simp
  finally show ?thesis .
qed

lemma DecodeXOR_nth_below5:
  "j < 5 \<Longrightarrow> j < length buf \<Longrightarrow>
   DecodeXOR m buf ! j = xor_loop (if m \<noteq> 2 then 0x6d else 0xad) (of_nat (length buf)) 0 buf ! j"
  by (simp add: DecodeXOR_def Let_def pair_loop_nth_below)

text \<open>
  Methods 0, 1 and 3 decipher the first four bytes alike, so they agree on the
  signature; method 2 deciphers the second byte differently from them.
\<close>

lemma Uint32_DecodeXOR_not2:
  assumes "4 \<le> length raw" "m \<noteq> 2" "m' \<noteq> 2"
  shows "Uint32 (DecodeXOR m raw) = Uint32 (DecodeXOR m' raw)"
proof -
  have "Uint32 (DecodeXOR k raw) =
      Uint32 [xor_loop 0x6d (of_nat (length raw)) 0 raw ! 0, xor_loop 0x6d (of_nat (length raw)) 0 raw ! 1,
        xor_loop 0x6d (of_nat (length raw)) 0 raw ! 2, xor_loop 0x6d (of_nat (length raw)) 0 raw ! 3]"
    if "k \<noteq> 2" for k
  proof -
    have "Uint32 (DecodeXOR k raw) =
        Uint32 [DecodeXOR k raw ! 0, DecodeXOR k raw ! 1, DecodeXOR k raw ! 2, DecodeXOR k raw ! 3]"
      using assms(1) by (intro Uint32_nth4) simp
    also have "\<dots> = Uint32 [xor_loop 0x6d (of_nat (length raw)) 0 raw ! 0,
        xor_loop 0x6d (of_nat (length raw)) 0 raw ! 1,
        xor_loop 0x6d (of_nat (length raw)) 0 raw ! 2, xor_loop 0x6d (of_nat (length raw)) 0 raw ! 3]"
    proof -
      from assms(1) have "raw \<noteq> []"
        by auto
      with assms(1) that show ?thesis
        by (simp add: DecodeXOR_nth_below5)
    qed
    finally show ?thesis .
  qed
  with assms show ?thesis
    by simp
qed

lemma DecodeXOR_nth1:
  assumes "4 \<le> length raw"
  shows "DecodeXOR m raw ! Suc 0 =
    (if m \<noteq> 2 then 0x6d else 0xad) XOR (raw ! Suc 0 XOR 0xd0 XOR raw ! 0 XOR 0x4f)"
proof -
  from assms have l: "Suc 0 < 5" "Suc 0 < length raw"
    by simp_all
  show ?thesis
    by (simp only: DecodeXOR_nth_below5 [OF l] xor_loop_nth1 [OF l(2)]) simp
qed

lemma signature_2_excludes_others:
  assumes len: "4 \<le> length raw" and s2: "Uint32 (DecodeXOR 2 raw) = 0x04030201" and m: "m \<noteq> 2"
  shows "Uint32 (DecodeXOR m raw) \<noteq> 0x04030201"
proof
  assume sm: "Uint32 (DecodeXOR m raw) = 0x04030201"
  define K where "K = raw ! Suc 0 XOR 0xd0 XOR raw ! 0 XOR 0x4f"
  from len s2 have "DecodeXOR 2 raw ! Suc 0 = 2"
    by (intro Uint32_signature_byte1) simp_all
  with len have a: "(0xad :: byte) XOR K = 2"
    by (simp only: DecodeXOR_nth1 K_def) simp
  from len sm have "DecodeXOR m raw ! Suc 0 = 2"
    by (intro Uint32_signature_byte1) simp_all
  with len m have b: "(0x6d :: byte) XOR K = 2"
    by (simp only: DecodeXOR_nth1 K_def) simp
  from a b have "(0xad :: byte) XOR K = 0x6d XOR K"
    by (simp only:)
  then have "(0xad :: byte) = 0x6d"
    by (rule xor_cancel_byte)
  then show False
    by simp
qed

section \<open>The method prober\<close>

lemma ReadFull_length: "ReadFull src pos n = Ok raw \<Longrightarrow> length raw = n"
  by (auto simp: ReadFull_def split: if_splits)

text \<open>
  The probing loop, unrolled: methods 1 and 0 are reached only when method 3 has not
  produced the signature, and then they do not produce it either.
\<close>

lemma probe_unrolled:
  "probe src offset sz 3 =
     (if sint offset < 0 then Err ErrSeek
      else
        and_then (ReadFull src (nat (sint offset)) (nat (sint sz))) (\<lambda>raw.
          if length raw < 4 then Err ErrTooShort
          else if Uint32 (DecodeXOR 3 raw) = 0x04030201 then Ok (3, DecodeXOR 3 raw)
          else if Uint32 (DecodeXOR 2 raw) = 0x04030201 then Ok (2, DecodeXOR 2 raw)
          else Err ErrUnsupportedVersion))"
proof (cases "sint offset < 0")
  case True
  then show ?thesis
    by (simp add: probe.simps [of _ _ _ 3])
next
  case noseek: False
  show ?thesis
  proof (cases "ReadFull src (nat (sint offset)) (nat (sint sz))")
    case (Ok raw)
    show ?thesis
    proof (cases "length raw < 4")
      case True
      with Ok noseek show ?thesis
        by (simp add: probe.simps [of _ _ _ 3])
    next
      case False
      then have len: "4 \<le> length raw"
        by simp
      have e1: "Uint32 (DecodeXOR 1 raw) = Uint32 (DecodeXOR 3 raw)"
        and e0: "Uint32 (DecodeXOR 0 raw) = Uint32 (DecodeXOR 3 raw)"
        using len by (simp_all add: Uint32_DecodeXOR_not2)
      from Ok noseek False show ?thesis
        by (simp add: probe.simps [of _ _ _ 3] probe.simps [of _ _ _ 2] probe.simps [of _ _ _ 1]
            probe.simps [of _ _ _ 0] probe.simps [of _ _ _ "- 1"] e1 e0)
    qed
  next
    case (Err e)
    with noseek show ?thesis
      by (simp add: probe.simps [of _ _ _ 3])
  next
    case (Panic p)
    with noseek show ?thesis
      by (simp add: probe.simps [of _ _ _ 3])
  qed
qed

lemma probe_method: "probe src offset sz 3 = Ok (m, buf) \<Longrightarrow> m = 3 \<or> m = 2"
  by (auto simp: probe_unrolled and_then_Ok_iff split: if_splits)

lemma supported_method: "supported srt pf m buf = Ok r \<Longrightarrow> method' r = m"
  by (auto simp: supported_def and_then_Ok_iff)

lemma ReadPack_method: "ReadPack srt pf src = Ok r \<Longrightarrow> method' r = 3 \<or> method' r = 2"
  by (auto simp: ReadPack_def and_then_Ok_iff Let_def split: if_splits
      dest!: probe_method supported_method)

lemma ReadPack_header:
  assumes "0 \<le> sint (Uint32 [o0, o1, o2, o3])" "0 \<le> sint (Uint32 [s0, s1, s2, s3])"
  shows "ReadPack srt pf (o0 # o1 # o2 # o3 # s0 # s1 # s2 # s3 # rest) =
     and_then (probe (o0 # o1 # o2 # o3 # s0 # s1 # s2 # s3 # rest)
         (Uint32 [o0, o1, o2, o3]) (Uint32 [s0, s1, s2, s3]) 3)
       (\<lambda>(m, buf). supported srt pf m buf)"
  using assms by (simp add: ReadPack_def ReadFull_def)

text \<open>
  A directory block: the signature, four unused bytes, the table position 25, the hash
  \<open>{"a": null}\<close>, the text \<open>a\<close>, and the table with the one offset 23 and the sentinel.
\<close>

lemma supported_directory:
  "supported (sort_key fst) pf m
     [0x01, 0x02, 0x03, 0x04, 0x00, 0x00, 0x00, 0x00, 0x19, 0x00, 0x00, 0x00,
      0x02, 0x01, 0x00, 0x00, 0x00, 0x00, 0x00, 0x00, 0x00, 0x01, 0x02, 0x61,
      0x00, 0x07, 0x17, 0x00, 0x00, 0x00, 0xff, 0xff, 0xff, 0xff]
   = Ok \<lparr>method' = m, offsets = [23], entries = VHash [([0x61], VNull)]\<rparr>"
proof -
  have loop: "readHashLoop srt pf [23]
     [0x01, 0x02, 0x03, 0x04, 0x00, 0x00, 0x00, 0x00, 0x19, 0x00, 0x00, 0x00,
      0x02, 0x01, 0x00, 0x00, 0x00, 0x00, 0x00, 0x00, 0x00, 0x01, 0x02, 0x61,
      0x00, 0x07, 0x17, 0x00, 0x00, 0x00, 0xff, 0xff, 0xff, 0xff]
     (Suc 0) [] (0 # 0 # 0 # 0 # 1 # rest) = Ok ([([0x61], VNull)], rest)" for rest srt
    by (simp add: readValue.simps readString_takeWhile)
  show ?thesis
    by (simp add: supported_def readOffsets_def Uint32_def offsets_loop.simps
        readHash.simps [of _ _ _ _ "2 # _"] loop del: readHashLoop_Suc)
qed

text \<open>The same block with bytes 5, 6, 21 and 22 flipped by \<open>0x0d\<close>.\<close>

lemma supported_directory_flipped:
  "supported srt pf m
     [0x01, 0x02, 0x03, 0x04, 0x00, 0x0d, 0x0d, 0x00, 0x19, 0x00, 0x00, 0x00,
      0x02, 0x01, 0x00, 0x00, 0x00, 0x00, 0x00, 0x00, 0x00, 0x0c, 0x0f, 0x61,
      0x00, 0x07, 0x17, 0x00, 0x00, 0x00, 0xff, 0xff, 0xff, 0xff]
   = Err (ErrUnsupportedValue 0x0c)"
  by (simp add: supported_def readOffsets_def Uint32_def offsets_loop.simps
      readHash.simps [of _ _ _ _ "2 # _"] readValue.simps readString_takeWhile)


text \<open>
  The block obfuscated for method 0, for methods 1 and 3 (the same bytes), and for
  method 2, and what \<^verbatim>\<open>DecodeXOR\<close> makes of them.
\<close>

lemma directory_0_method_0:
  "DecodeXOR 0
     [0x6c, 0x9c, 0x58, 0xcd, 0xd8, 0x5c, 0x11, 0x38, 0xc4, 0x93, 0x38, 0x35,
     0xe0, 0x7e, 0xfb, 0xcc, 0xa3, 0xd1, 0x36, 0x87, 0xf2, 0x97, 0xd8, 0x70,
     0xf5, 0x85, 0x19, 0x94, 0x63, 0xdc, 0x46, 0xee, 0x5e, 0x93]
   = [0x01, 0x02, 0x03, 0x04, 0x00, 0x00, 0x00, 0x00, 0x19, 0x00, 0x00, 0x00,
     0x02, 0x01, 0x00, 0x00, 0x00, 0x00, 0x00, 0x00, 0x00, 0x01, 0x02, 0x61,
     0x00, 0x07, 0x17, 0x00, 0x00, 0x00, 0xff, 0xff, 0xff, 0xff]"
  by (simp add: DecodeXOR_def magicBytes_def pair_loop.simps flip_pair_def Let_def)

lemma directory_0_method_3:
  "DecodeXOR 3
     [0x6c, 0x9c, 0x58, 0xcd, 0xd8, 0x5c, 0x11, 0x38, 0xc4, 0x93, 0x38, 0x35,
     0xe0, 0x7e, 0xfb, 0xcc, 0xa3, 0xd1, 0x36, 0x87, 0xf2, 0x97, 0xd8, 0x70,
     0xf5, 0x85, 0x19, 0x94, 0x63, 0xdc, 0x46, 0xee, 0x5e, 0x93]
   = [0x01, 0x02, 0x03, 0x04, 0x00, 0x0d, 0x0d, 0x00, 0x19, 0x00, 0x00, 0x00,
     0x02, 0x01, 0x00, 0x00, 0x00, 0x00, 0x00, 0x00, 0x00, 0x0c, 0x0f, 0x61,
     0x00, 0x07, 0x17, 0x00, 0x00, 0x00, 0xff, 0xff, 0xff, 0xff]"
  by (simp add: DecodeXOR_def magicBytes_def pair_loop.simps flip_pair_def Let_def)

lemma directory_1_method_3:
  "DecodeXOR 3
     [0x6c, 0x9c, 0x58, 0xcd, 0xd8, 0x51, 0x11, 0x38, 0xc4, 0x93, 0x38, 0x35,
     0xe0, 0x7e, 0xfb, 0xcc, 0xa3, 0xd1, 0x36, 0x87, 0xf2, 0x9a, 0xd8, 0x70,
     0xf5, 0x85, 0x19, 0x94, 0x63, 0xdc, 0x46, 0xee, 0x5e, 0x93]
   = [0x01, 0x02, 0x03, 0x04, 0x00, 0x00, 0x00, 0x00, 0x19, 0x00, 0x00, 0x00,
     0x02, 0x01, 0x00, 0x00, 0x00, 0x00, 0x00, 0x00, 0x00, 0x01, 0x02, 0x61,
     0x00, 0x07, 0x17, 0x00, 0x00, 0x00, 0xff, 0xff, 0xff, 0xff]"
  by (simp add: DecodeXOR_def magicBytes_def pair_loop.simps flip_pair_def Let_def)

lemma directory_2_method_2:
  "DecodeXOR 2
     [0x6c, 0x5c, 0xd8, 0x8d, 0xd8, 0x11, 0x91, 0x78, 0xc4, 0x53, 0xb8, 0xf5,
     0xe0, 0x3e, 0x7b, 0x8c, 0xa3, 0x91, 0xb6, 0x47, 0xf2, 0x5a, 0x58, 0x30,
     0xf5, 0xc5, 0x99, 0xd4, 0x63, 0x1c, 0xc6, 0x2e, 0x5e, 0xd3]
   = [0x01, 0x02, 0x03, 0x04, 0x00, 0x00, 0x00, 0x00, 0x19, 0x00, 0x00, 0x00,
     0x02, 0x01, 0x00, 0x00, 0x00, 0x00, 0x00, 0x00, 0x00, 0x01, 0x02, 0x61,
     0x00, 0x07, 0x17, 0x00, 0x00, 0x00, 0xff, 0xff, 0xff, 0xff]"
  by (simp add: DecodeXOR_def magicBytes_def pair_loop.simps flip_pair_def Let_def)

lemma Uint32_directory [simp]:
  "Uint32 (0x01 # 0x02 # 0x03 # 0x04 # rest) = 0x04030201"
  by (simp add: Uint32_def)

lemma ReadPack_directory_0:
  "ReadPack srt pf
     [0x08, 0x00, 0x00, 0x00, 0x22, 0x00, 0x00, 0x00, 0x6c, 0x9c, 0x58, 0xcd,
     0xd8, 0x5c, 0x11, 0x38, 0xc4, 0x93, 0x38, 0x35, 0xe0, 0x7e, 0xfb, 0xcc,
     0xa3, 0xd1, 0x36, 0x87, 0xf2, 0x97, 0xd8, 0x70, 0xf5, 0x85, 0x19, 0x94,
     0x63, 0xdc, 0x46, 0xee, 0x5e, 0x93]
   = Err (ErrUnsupportedValue 0x0c)"
  by (simp add: ReadPack_header probe_unrolled ReadFull_def Uint32_def [of "[_, _, _, _]"]
      directory_0_method_3 supported_directory_flipped)

lemma ReadPack_directory_1:
  "ReadPack (sort_key fst) pf
     [0x08, 0x00, 0x00, 0x00, 0x22, 0x00, 0x00, 0x00, 0x6c, 0x9c, 0x58, 0xcd,
     0xd8, 0x51, 0x11, 0x38, 0xc4, 0x93, 0x38, 0x35, 0xe0, 0x7e, 0xfb, 0xcc,
     0xa3, 0xd1, 0x36, 0x87, 0xf2, 0x9a, 0xd8, 0x70, 0xf5, 0x85, 0x19, 0x94,
     0x63, 0xdc, 0x46, 0xee, 0x5e, 0x93]
   = Ok \<lparr>method' = 3, offsets = [23], entries = VHash [([0x61], VNull)]\<rparr>"
  by (simp add: ReadPack_header probe_unrolled ReadFull_def Uint32_def [of "[_, _, _, _]"]
      directory_1_method_3 supported_directory)

text \<open>
  C2. \<^verbatim>\<open>ReadPack\<close> tries the methods 3, 2, 1, 0 in this order and goes on with the first
  one whose deciphered block starts with the signature \<open>0x04030201\<close>. The first four
  deciphered bytes are the same under methods 0, 1 and 3, and methods 2 and 3 never
  both give the signature. So for a file with a readable header and a directory block
  of at least four bytes inside the file: when the block deciphers to the signature
  under \<open>m \<in> {0, 1, 2, 3}\<close>, \<^verbatim>\<open>ReadPack\<close> selects method 3 for \<open>m \<in> {0, 1, 3}\<close> and
  method 2 for \<open>m = 2\<close>, and decodes the block deciphered by the selected method; when
  no method gives the signature, it fails with the unsupported-version error.
\<close>

theorem ReadPack_selects:
  assumes src: "src = oa # ob # oc # od # sa # sb # sc # sd # rest"
    and off: "0 \<le> sint (Uint32 [oa, ob, oc, od])"
    and sz: "4 \<le> sint (Uint32 [sa, sb, sc, sd])"
    and len: "nat (sint (Uint32 [oa, ob, oc, od])) + nat (sint (Uint32 [sa, sb, sc, sd])) \<le> length src"
    and raw: "raw = take (nat (sint (Uint32 [sa, sb, sc, sd]))) (drop (nat (sint (Uint32 [oa, ob, oc, od]))) src)"
  shows "(m \<in> {0, 1, 2, 3} \<and> Uint32 (DecodeXOR m raw) = 0x04030201 \<longrightarrow>
            ReadPack srt pf src =
              supported srt pf (if m = 2 then 2 else 3) (DecodeXOR (if m = 2 then 2 else 3) raw)) \<and>
         ((\<forall>k \<in> {0, 1, 2, 3}. Uint32 (DecodeXOR k raw) \<noteq> 0x04030201) \<longrightarrow>
            ReadPack srt pf src = Err ErrUnsupportedVersion) \<and>
         (\<forall>k buf r. supported srt pf k buf = Ok r \<longrightarrow> method' r = k)"
proof -
  from sz len have rf: "ReadFull src (nat (sint (Uint32 [oa, ob, oc, od])))
      (nat (sint (Uint32 [sa, sb, sc, sd]))) = Ok raw"
    by (auto simp: ReadFull_def raw)
  from sz len have rl: "4 \<le> length raw"
    by (simp add: raw)
  from off sz have rp: "ReadPack srt pf src =
      (if Uint32 (DecodeXOR 3 raw) = 0x04030201 then supported srt pf 3 (DecodeXOR 3 raw)
       else if Uint32 (DecodeXOR 2 raw) = 0x04030201 then supported srt pf 2 (DecodeXOR 2 raw)
       else Err ErrUnsupportedVersion)"
    unfolding src
    by (subst ReadPack_header) (use rf rl in \<open>simp_all add: probe_unrolled src [symmetric]\<close>)
  have a: "ReadPack srt pf src =
      supported srt pf (if m = 2 then 2 else 3) (DecodeXOR (if m = 2 then 2 else 3) raw)"
    if m: "m \<in> {0, 1, 2, 3}" and sg: "Uint32 (DecodeXOR m raw) = 0x04030201"
  proof (cases "m = 2")
    case True
    with sg rl have "Uint32 (DecodeXOR 3 raw) \<noteq> 0x04030201"
      by (intro signature_2_excludes_others) simp_all
    with True sg show ?thesis
      by (simp add: rp)
  next
    case False
    with rl have "Uint32 (DecodeXOR 3 raw) = Uint32 (DecodeXOR m raw)"
      by (intro Uint32_DecodeXOR_not2) simp_all
    with False sg show ?thesis
      by (simp add: rp)
  qed
  have b: "ReadPack srt pf src = Err ErrUnsupportedVersion"
    if "\<forall>k \<in> {0, 1, 2, 3}. Uint32 (DecodeXOR k raw) \<noteq> 0x04030201"
    using that by (simp add: rp)
  from a b show ?thesis
    by (auto dest: supported_method)
qed

text \<open>
  The example directory obfuscated for method 1, which method 3 is selected for; the
  one obfuscated for method 2; and a block of four zero bytes, which no method
  deciphers to the signature.
\<close>

theorem ReadPack_selects_witness:
  "ReadPack (sort_key fst) (\<lambda>s. None :: unit option)
     (0x08 # 0x00 # 0x00 # 0x00 # 0x22 # 0x00 # 0x00 # 0x00 # 0x6c # 0x9c # 0x58 # 0xcd #
      0xd8 # 0x51 # 0x11 # 0x38 # 0xc4 # 0x93 # 0x38 # 0x35 # 0xe0 # 0x7e # 0xfb # 0xcc #
      0xa3 # 0xd1 # 0x36 # 0x87 # 0xf2 # 0x9a # 0xd8 # 0x70 # 0xf5 # 0x85 # 0x19 # 0x94 #
      0x63 # 0xdc # 0x46 # 0xee # 0x5e # 0x93 # [])
   = Ok \<lparr>method' = 3, offsets = [23], entries = VHash [([0x61], VNull)]\<rparr> \<and>
   ReadPack (sort_key fst) (\<lambda>s. None :: unit option)
     (0x08 # 0x00 # 0x00 # 0x00 # 0x22 # 0x00 # 0x00 # 0x00 # 0x6c # 0x5c # 0xd8 # 0x8d #
      0xd8 # 0x11 # 0x91 # 0x78 # 0xc4 # 0x53 # 0xb8 # 0xf5 # 0xe0 # 0x3e # 0x7b # 0x8c #
      0xa3 # 0x91 # 0xb6 # 0x47 # 0xf2 # 0x5a # 0x58 # 0x30 # 0xf5 # 0xc5 # 0x99 # 0xd4 #
      0x63 # 0x1c # 0xc6 # 0x2e # 0x5e # 0xd3 # [])
   = Ok \<lparr>method' = 2, offsets = [23], entries = VHash [([0x61], VNull)]\<rparr> \<and>
   ReadPack (sort_key fst) (\<lambda>s. None :: unit option) [0, 0, 0, 0, 4, 0, 0, 0] = Err ErrUnsupportedVersion"
proof -
  let ?pf = "\<lambda>s. None :: unit option"
  have u: "Uint32 [0x08, 0, 0, 0] = 8" "Uint32 [0x22, 0, 0, 0] = 34" "Uint32 [4, 0, 0, 0] = 4"
    by (simp_all add: Uint32_def)
  have d1: "DecodeXOR 1 b = DecodeXOR 3 b" for b
    by (simp add: DecodeXOR_def)
  have "ReadPack (sort_key fst) ?pf
     (0x08 # 0x00 # 0x00 # 0x00 # 0x22 # 0x00 # 0x00 # 0x00 # 0x6c # 0x9c # 0x58 # 0xcd #
      0xd8 # 0x51 # 0x11 # 0x38 # 0xc4 # 0x93 # 0x38 # 0x35 # 0xe0 # 0x7e # 0xfb # 0xcc #
      0xa3 # 0xd1 # 0x36 # 0x87 # 0xf2 # 0x9a # 0xd8 # 0x70 # 0xf5 # 0x85 # 0x19 # 0x94 #
      0x63 # 0xdc # 0x46 # 0xee # 0x5e # 0x93 # [])
   = Ok \<lparr>method' = 3, offsets = [23], entries = VHash [([0x61], VNull)]\<rparr>"
    using ReadPack_selects [where oa = 8 and ob = 0 and oc = 0 and od = 0
        and sa = 34 and sb = 0 and sc = 0 and sd = 0 and m = 1 and pf = ?pf and srt = "sort_key fst"
        and rest = "[0x6c, 0x9c, 0x58, 0xcd, 0xd8, 0x51, 0x11, 0x38, 0xc4, 0x93, 0x38, 0x35,
          0xe0, 0x7e, 0xfb, 0xcc, 0xa3, 0xd1, 0x36, 0x87, 0xf2, 0x9a, 0xd8, 0x70,
          0xf5, 0x85, 0x19, 0x94, 0x63, 0xdc, 0x46, 0xee, 0x5e, 0x93]",
        OF refl _ _ _ refl, THEN conjunct1]
    by (simp add: u d1 directory_1_method_3 supported_directory)
  moreover have "ReadPack (sort_key fst) ?pf
     (0x08 # 0x00 # 0x00 # 0x00 # 0x22 # 0x00 # 0x00 # 0x00 # 0x6c # 0x5c # 0xd8 # 0x8d #
      0xd8 # 0x11 # 0x91 # 0x78 # 0xc4 # 0x53 # 0xb8 # 0xf5 # 0xe0 # 0x3e # 0x7b # 0x8c #
      0xa3 # 0x91 # 0xb6 # 0x47 # 0xf2 # 0x5a # 0x58 # 0x30 # 0xf5 # 0xc5 # 0x99 # 0xd4 #
      0x63 # 0x1c # 0xc6 # 0x2e # 0x5e # 0xd3 # [])
   = Ok \<lparr>method' = 2, offsets = [23], entries = VHash [([0x61], VNull)]\<rparr>"
    using ReadPack_selects [where oa = 8 and ob = 0 and oc = 0 and od = 0
        and sa = 34 and sb = 0 and sc = 0 and sd = 0 and m = 2 and pf = ?pf and srt = "sort_key fst"
        and rest = "[0x6c, 0x5c, 0xd8, 0x8d, 0xd8, 0x11, 0x91, 0x78, 0xc4, 0x53, 0xb8, 0xf5,
          0xe0, 0x3e, 0x7b, 0x8c, 0xa3, 0x91, 0xb6, 0x47, 0xf2, 0x5a, 0x58, 0x30,
          0xf5, 0xc5, 0x99, 0xd4, 0x63, 0x1c, 0xc6, 0x2e, 0x5e, 0xd3]",
        OF refl _ _ _ refl, THEN conjunct1]
    by (simp add: u directory_2_method_2 supported_directory)
  moreover have "ReadPack (sort_key fst) ?pf [0, 0, 0, 0, 4, 0, 0, 0] = Err ErrUnsupportedVersion"
    using ReadPack_selects [where oa = 0 and ob = 0 and oc = 0 and od = 0
        and sa = 4 and sb = 0 and sc = 0 and sd = 0 and pf = ?pf and srt = "sort_key fst" and rest = "[]",
        OF refl _ _ _ refl, THEN conjunct2, THEN conjunct1]
    by (simp add: u DecodeXOR_def magicBytes_def pair_loop.simps Uint32_def)
  ultimately show ?thesis
    by simp
qed

text \<open>
  The claim as stated fails on the example directory obfuscated for method 0: it is
  well formed under method 0, but \<^verbatim>\<open>ReadPack\<close> selects method 3, under which bytes 21
  and 22 of the block differ, and fails on the value tag \<open>0x0c\<close>.
\<close>

theorem ReadPack_method_0_counterexample:
  "supported (sort_key fst) (\<lambda>s. None :: unit option) 0
     (DecodeXOR 0
       [0x6c, 0x9c, 0x58, 0xcd, 0xd8, 0x5c, 0x11, 0x38, 0xc4, 0x93, 0x38, 0x35,
        0xe0, 0x7e, 0xfb, 0xcc, 0xa3, 0xd1, 0x36, 0x87, 0xf2, 0x97, 0xd8, 0x70,
        0xf5, 0x85, 0x19, 0x94, 0x63, 0xdc, 0x46, 0xee, 0x5e, 0x93])
   = Ok \<lparr>method' = 0, offsets = [23], entries = VHash [([0x61], VNull)]\<rparr> \<and>
   ReadPack (sort_key fst) (\<lambda>s. None :: unit option)
     [0x08, 0x00, 0x00, 0x00, 0x22, 0x00, 0x00, 0x00, 0x6c, 0x9c, 0x58, 0xcd,
     0xd8, 0x5c, 0x11, 0x38, 0xc4, 0x93, 0x38, 0x35, 0xe0, 0x7e, 0xfb, 0xcc,
     0xa3, 0xd1, 0x36, 0x87, 0xf2, 0x97, 0xd8, 0x70, 0xf5, 0x85, 0x19, 0x94,
     0x63, 0xdc, 0x46, 0xee, 0x5e, 0x93]
   = Err (ErrUnsupportedValue 0x0c)"
  by (simp only: directory_0_method_0 supported_directory ReadPack_directory_0)

text \<open>
  C10. Methods 1 and 3 are the same transform: both use the multiplier \<open>0x6d\<close> and both
  run the second pass. The prober tries method 3 first, so it never ends on method 1;
  it ends on method 3 or on method 2.
\<close>

theorem method_1_is_method_3:
  "DecodeXOR 1 buf = DecodeXOR 3 buf \<and>
   (\<forall>b. probe src offset sz 3 \<noteq> Ok (1, b)) \<and>
   (\<forall>r. ReadPack srt pf src = Ok r \<longrightarrow> method' r \<noteq> 1 \<and> (method' r = 3 \<or> method' r = 2))"
proof (intro conjI allI impI)
  show "DecodeXOR 1 buf = DecodeXOR 3 buf"
    by (simp add: DecodeXOR_def)
next
  fix b
  show "probe src offset sz 3 \<noteq> Ok (1, b)"
    by (auto dest: probe_method)
next
  fix r
  assume "ReadPack srt pf src = Ok r"
  then have "method' r = 3 \<or> method' r = 2"
    by (rule ReadPack_method)
  then show "method' r \<noteq> 1" and "method' r = 3 \<or> method' r = 2"
    by auto
qed

text \<open>The example directory obfuscated for method 1 is read with method 3.\<close>

theorem method_1_is_method_3_witness:
  "ReadPack (sort_key fst) (\<lambda>s. None :: unit option)
     [0x08, 0x00, 0x00, 0x00, 0x22, 0x00, 0x00, 0x00, 0x6c, 0x9c, 0x58, 0xcd,
       0xd8, 0x51, 0x11, 0x38, 0xc4, 0x93, 0x38, 0x35, 0xe0, 0x7e, 0xfb, 0xcc,
       0xa3, 0xd1, 0x36, 0x87, 0xf2, 0x9a, 0xd8, 0x70, 0xf5, 0x85, 0x19, 0x94,
       0x63, 0xdc, 0x46, 0xee, 0x5e, 0x93]
   = Ok \<lparr>method' = 3, offsets = [23], entries = VHash [([0x61], VNull)]\<rparr> \<and>
   method' \<lparr>method' = 3, offsets = [23], entries = VHash [([0x61], VNull :: unit Value)]\<rparr> \<noteq> 1"
  using method_1_is_method_3 [where pf = "\<lambda>s. None :: unit option" and srt = "sort_key fst" and src =
      "[0x08, 0x00, 0x00, 0x00, 0x22, 0x00, 0x00, 0x00, 0x6c, 0x9c, 0x58, 0xcd,
       0xd8, 0x51, 0x11, 0x38, 0xc4, 0x93, 0x38, 0x35, 0xe0, 0x7e, 0xfb, 0xcc,
       0xa3, 0xd1, 0x36, 0x87, 0xf2, 0x9a, 0xd8, 0x70, 0xf5, 0x85, 0x19, 0x94,
       0x63, 0xdc, 0x46, 0xee, 0x5e, 0x93]"]
  by (simp add: ReadPack_directory_1)

section \<open>Properties of key lookup\<close>

text \<open>
  On a predicate that is monotone below \<open>n\<close>, the binary search returns the least index
  at which the predicate holds, or \<open>n\<close>.
\<close>

lemma search_loop_least:
  "(\<forall>a b. a \<le> b \<longrightarrow> b < n \<longrightarrow> f a \<longrightarrow> f b) \<Longrightarrow>
   i \<le> j \<Longrightarrow> j \<le> n \<Longrightarrow> (\<forall>x<i. \<not> f x) \<Longrightarrow> (j < n \<longrightarrow> f j) \<Longrightarrow>
     search_loop f i j \<le> n \<and> (\<forall>x < search_loop f i j. \<not> f x) \<and>
     (search_loop f i j < n \<longrightarrow> f (search_loop f i j))"
proof (induction f i j rule: search_loop.induct)
  case (1 f i j)
  note mono = "1.prems"(1)
  show ?case
  proof (cases "i < j")
    case False
    then have eq: "search_loop f i j = i"
      by (simp add: search_loop.simps [of f i j])
    from False "1.prems"(2) have "i = j"
      by simp
    with "1.prems"(3-5) show ?thesis
      unfolding eq by blast
  next
    case True
    define h where "h = (i + j) div 2"
    from True have h: "i \<le> h" "h < j"
      by (simp_all add: h_def)
    with "1.prems"(3) have hn: "h < n" "h \<le> n"
      by simp_all
    show ?thesis
    proof (cases "f h")
      case fh: True
      with True have eq: "search_loop f i j = search_loop f i h"
        by (simp add: search_loop.simps [of f i j] h_def Let_def)
      have "\<not> \<not> f h"
        using fh by simp
      from "1.IH"(2) [OF True h_def this mono h(1) hn(2) "1.prems"(4)] fh
      show ?thesis
        unfolding eq by blast
    next
      case nfh: False
      with True have eq: "search_loop f i j = search_loop f (h + 1) j"
        by (simp add: search_loop.simps [of f i j] h_def Let_def)
      have below: "\<forall>x < h + 1. \<not> f x"
      proof (intro allI impI)
        fix x assume "x < h + 1"
        then have "x \<le> h" by simp
        then show "\<not> f x"
          using mono hn(1) nfh by blast
      qed
      from h have "h + 1 \<le> j"
        by simp
      from "1.IH"(1) [OF True h_def nfh mono this "1.prems"(3) below "1.prems"(5)]
      show ?thesis
        unfolding eq by blast
    qed
  qed
qed

lemma Search_least:
  assumes "\<forall>a b. a \<le> b \<longrightarrow> b < n \<longrightarrow> f a \<longrightarrow> f b"
  shows "Search n f \<le> n \<and> (\<forall>x < Search n f. \<not> f x) \<and> (Search n f < n \<longrightarrow> f (Search n f))"
  unfolding Search_def using assms by (rule search_loop_least) simp_all

lemma map_of_first_index:
  "r < length h \<Longrightarrow> fst (h ! r) = k \<Longrightarrow> \<forall>x<r. fst (h ! x) \<noteq> k \<Longrightarrow> map_of h k = Some (snd (h ! r))"
proof (induction h arbitrary: r)
  case Nil
  then show ?case by simp
next
  case (Cons e es)
  show ?case
  proof (cases r)
    case 0
    with Cons.prems show ?thesis
      by (cases e) auto
  next
    case (Suc r')
    with Cons.prems have "fst e \<noteq> k"
      by auto
    moreover from Cons.prems Suc have "map_of es k = Some (snd (es ! r'))"
      by (intro Cons.IH) auto
    ultimately show ?thesis
      using Suc by (cases e) auto
  qed
qed

lemma find_first_index:
  "r \<le> length h \<Longrightarrow> \<forall>x<r. \<not> P (h ! x) \<Longrightarrow> (r < length h \<longrightarrow> P (h ! r)) \<Longrightarrow>
   List.find P h = (if r < length h then Some (h ! r) else None)"
proof (induction h arbitrary: r)
  case Nil
  then show ?case by simp
next
  case (Cons e es)
  show ?case
  proof (cases r)
    case 0
    with Cons.prems show ?thesis
      by simp
  next
    case (Suc r')
    with Cons.prems have "\<not> P e"
      by auto
    moreover from Cons.prems Suc
    have "List.find P es = (if r' < length es then Some (es ! r') else None)"
      by (intro Cons.IH) auto
    ultimately show ?thesis
      using Suc by simp
  qed
qed

text \<open>
  On entries sorted by key, \<^verbatim>\<open>Find\<close> looks at the first entry whose key is not below
  the search key, at index \<open>r\<close>.
\<close>

lemma Find_index:
  assumes srtd: "sorted (map fst hash)"
  obtains r where "r \<le> length hash" "\<forall>x<r. \<not> name \<le> fst (hash ! x)"
    "r < length hash \<longrightarrow> name \<le> fst (hash ! r)"
    "Find u (Some (VHash hash)) name =
      (if r < length hash \<and> name = ToLower u (fst (hash ! r)) then Some (snd (hash ! r)) else None)"
proof -
  define f where "f = (\<lambda>i. fst (hash ! i) \<ge> name)"
  define r where "r = Search (length hash) f"
  have mono: "\<forall>a b. a \<le> b \<longrightarrow> b < length hash \<longrightarrow> f a \<longrightarrow> f b"
  proof (intro allI impI)
    fix a b
    assume ab: "a \<le> b" "b < length hash" and "f a"
    from srtd ab have "fst (hash ! a) \<le> fst (hash ! b)"
      using sorted_nth_mono [of "map fst hash" a b] by simp
    with \<open>f a\<close> show "f b"
      by (simp add: f_def)
  qed
  from Search_least [of "length hash" f, OF mono]
  have r: "r \<le> length hash" "\<forall>x<r. \<not> f x" "r < length hash \<longrightarrow> f r"
    by (simp_all add: r_def)
  have find: "Find u (Some (VHash hash)) name =
      (if r < length hash \<and> name = ToLower u (fst (hash ! r)) then Some (snd (hash ! r)) else None)"
    by (simp add: r_def f_def Let_def)
  from r find show ?thesis
    by (intro that [of r]) (simp_all add: f_def)
qed

lemma Find_sorted_find:
  assumes "sorted (map fst hash)"
  shows "Find u (Some (VHash hash)) name =
     (case List.find (\<lambda>e. name \<le> fst e) hash of
        None \<Rightarrow> None
      | Some e \<Rightarrow> if name = ToLower u (fst e) then Some (snd e) else None)"
proof -
  from assms obtain r where r: "r \<le> length hash" "\<forall>x<r. \<not> name \<le> fst (hash ! x)"
    "r < length hash \<longrightarrow> name \<le> fst (hash ! r)"
    and find: "Find u (Some (VHash hash)) name =
      (if r < length hash \<and> name = ToLower u (fst (hash ! r)) then Some (snd (hash ! r)) else None)"
    by (rule Find_index)
  from r have "List.find (\<lambda>e. name \<le> fst e) hash = (if r < length hash then Some (hash ! r) else None)"
    by (intro find_first_index) simp_all
  then show ?thesis
    unfolding find by simp
qed

lemma Find_stored_key:
  assumes srtd: "sorted (map fst hash)" and key: "name \<in> fst ` set hash"
  shows "Find u (Some (VHash hash)) name = (if ToLower u name = name then map_of hash name else None)"
proof -
  from srtd obtain r where r: "r \<le> length hash" "\<forall>x<r. \<not> name \<le> fst (hash ! x)"
    "r < length hash \<longrightarrow> name \<le> fst (hash ! r)"
    and find: "Find u (Some (VHash hash)) name =
      (if r < length hash \<and> name = ToLower u (fst (hash ! r)) then Some (snd (hash ! r)) else None)"
    by (rule Find_index)
  from key obtain p where p: "p < length hash" "fst (hash ! p) = name"
    by (auto simp: in_set_conv_nth)
  with r(2) have rp: "r \<le> p"
    by (metis not_le order_refl)
  with p have rl: "r < length hash"
    by simp
  with r(3) have "name \<le> fst (hash ! r)"
    by simp
  moreover from srtd rp p have "fst (hash ! r) \<le> fst (hash ! p)"
    using sorted_nth_mono [of "map fst hash" r p] by simp
  ultimately have kr: "fst (hash ! r) = name"
    using p by simp
  from r(2) have "\<forall>x<r. fst (hash ! x) \<noteq> name"
    by auto
  with rl kr have "map_of hash name = Some (snd (hash ! r))"
    by (intro map_of_first_index) auto
  with rl kr show ?thesis
    unfolding find by auto
qed

lemma Find_sorted_SomeD:
  assumes "sorted (map fst hash)" and "Find u (Some (VHash hash)) name = Some x"
  shows "\<exists>k. (k, x) \<in> set hash \<and> name = ToLower u k \<and> name \<le> k"
proof -
  from assms(1) obtain r where r: "r < length hash \<longrightarrow> name \<le> fst (hash ! r)"
    and find: "Find u (Some (VHash hash)) name =
      (if r < length hash \<and> name = ToLower u (fst (hash ! r)) then Some (snd (hash ! r)) else None)"
    by (rule Find_index)
  from assms(2) have *: "r < length hash" "name = ToLower u (fst (hash ! r))" "x = snd (hash ! r)"
    unfolding find by (simp_all split: if_splits)
  then have "(fst (hash ! r), x) \<in> set hash"
    by simp
  with * r show ?thesis
    by blast
qed

lemma readHash_sorted:
  "\<forall>h. sorted (map fst (srt h)) \<Longrightarrow> readHash srt pf offs orig buf = Ok (v, rest) \<Longrightarrow>
   \<exists>hash. v = VHash hash \<and> sorted (map fst hash)"
  by (auto simp: readHash.simps [of _ _ _ _ buf] and_then_Ok_iff split: if_splits)

lemma readValue_sorted:
  assumes "\<forall>h. sorted (map fst (srt h))"
    and a: "readValue srt pf offs orig buf = Ok (VHash hash, rest)"
  shows "sorted (map fst hash)"
proof -
  from a have "readHash srt pf offs orig buf = Ok (VHash hash, rest)"
    by (auto simp: readValue.simps [of _ _ _ _ buf] and_then_Ok_iff Let_def
        split: if_splits option.splits)
  with assms(1) show ?thesis
    by (auto dest: readHash_sorted)
qed

text \<open>
  C3. \<^verbatim>\<open>Find\<close> does not lower-case the search key. On the entries of a decoded hash,
  which are sorted bytewise by key, it takes the first entry whose stored key is not
  below the search key as given, and returns that entry's value exactly when the search
  key is equal to the lower-cased stored key; otherwise, and on \<^verbatim>\<open>nil\<close> and on a value
  that is not a hash, it returns not-found. So a search key that is itself a stored key
  finds the first entry with that key when the key is its own lower-cased form, and
  nothing otherwise; and whenever an entry is found, its lower-cased key is the search
  key and is not bytewise above the stored key, so that an entry whose key is below its
  lower-cased form, as every ASCII key with an upper-case letter is, is found by no
  search key.
\<close>

theorem Find_decoded_hash:
  "(sorted (map fst hash) \<longrightarrow>
      Find u (Some (VHash hash)) name =
        (case List.find (\<lambda>e. name \<le> fst e) hash of
           None \<Rightarrow> None
         | Some e \<Rightarrow> if name = ToLower u (fst e) then Some (snd e) else None)) \<and>
   (sorted (map fst hash) \<and> name \<in> fst ` set hash \<longrightarrow>
      Find u (Some (VHash hash)) name = (if ToLower u name = name then map_of hash name else None)) \<and>
   (sorted (map fst hash) \<and> Find u (Some (VHash hash)) name = Some x \<longrightarrow>
      (\<exists>k. (k, x) \<in> set hash \<and> name = ToLower u k \<and> name \<le> k)) \<and>
   ((\<forall>h. sorted (map fst (srt h))) \<and>
    (readHash srt pf offs orig buf = Ok (VHash hash, rest) \<or>
     readValue srt pf offs orig buf = Ok (VHash hash, rest)) \<longrightarrow>
      sorted (map fst hash)) \<and>
   ((\<forall>h. v \<noteq> Some (VHash h)) \<longrightarrow> Find u v name = None)"
proof (intro conjI impI)
  assume "sorted (map fst hash)"
  then show "Find u (Some (VHash hash)) name =
      (case List.find (\<lambda>e. name \<le> fst e) hash of
         None \<Rightarrow> None
       | Some e \<Rightarrow> if name = ToLower u (fst e) then Some (snd e) else None)"
    by (rule Find_sorted_find)
next
  assume "sorted (map fst hash) \<and> name \<in> fst ` set hash"
  then show "Find u (Some (VHash hash)) name =
      (if ToLower u name = name then map_of hash name else None)"
    by (intro Find_stored_key) simp_all
next
  assume "sorted (map fst hash) \<and> Find u (Some (VHash hash)) name = Some x"
  then show "\<exists>k. (k, x) \<in> set hash \<and> name = ToLower u k \<and> name \<le> k"
    by (intro Find_sorted_SomeD) simp_all
next
  assume "(\<forall>h. sorted (map fst (srt h))) \<and>
    (readHash srt pf offs orig buf = Ok (VHash hash, rest) \<or>
     readValue srt pf offs orig buf = Ok (VHash hash, rest))"
  then show "sorted (map fst hash)"
    by (auto dest: readHash_sorted readValue_sorted)
next
  assume "\<forall>h. v \<noteq> Some (VHash h)"
  then show "Find u v name = None"
    by (cases "(u, v, name)" rule: Find.cases) simp_all
qed

text \<open>
  The hash \<open>{"b": "hi", "a": 42}\<close>, with the texts \<open>a\<close>, \<open>b\<close>, \<open>42\<close> and \<open>hi\<close> in the
  table: it decodes to the entries sorted by key. The keys are ASCII, so that
  \<^verbatim>\<open>strings.ToLower\<close> does not reach the Unicode tables, which \<open>id\<close> stands for below.
\<close>

lemma loop_a_b:
  "readHashLoop srt pf [0, 2, 4, 7] [0x61, 0, 0x62, 0, 0x34, 0x32, 0, 0x68, 0x69, 0] 2 []
     [1, 0, 0, 0, 4, 3, 0, 0, 0, 0, 0, 0, 0, 5, 2, 0, 0, 0, 2]
   = Ok ([([0x62], VString [0x68, 0x69]), ([0x61], VInteger 42)], [2])"
proof -
  have "readHashLoop srt pf [0, 2, 4, 7] [0x61, 0, 0x62, 0, 0x34, 0x32, 0, 0x68, 0x69, 0]
     (Suc (Suc 0)) [] [1, 0, 0, 0, 4, 3, 0, 0, 0, 0, 0, 0, 0, 5, 2, 0, 0, 0, 2]
   = Ok ([([0x62], VString [0x68, 0x69]), ([0x61], VInteger 42)], [2])"
    by (simp add: readValue.simps readString_takeWhile Uint32_def ParseInt_def is_digit_def)
  then show ?thesis
    by (simp add: numeral_2_eq_2)
qed

lemma decode_a_b:
  "readHash (sort_key fst) pf [0, 2, 4, 7] [0x61, 0, 0x62, 0, 0x34, 0x32, 0, 0x68, 0x69, 0]
     [2, 2, 0, 0, 0, 1, 0, 0, 0, 4, 3, 0, 0, 0, 0, 0, 0, 0, 5, 2, 0, 0, 0, 2]
   = Ok (VHash [([0x61], VInteger 42), ([0x62], VString [0x68, 0x69])], [])"
  by (simp add: readHash.simps [of _ _ _ _ "2 # _"] loop_a_b)

lemma ToLower_ascii [simp]:
  "ToLower u [0x61] = [0x61]" "ToLower u [0x62] = [0x62]" "ToLower u [0x41] = [0x61]"
  by (simp_all add: ToLower_def lower_byte_def)

text \<open>
  On the decoded hash the search keys \<open>a\<close> and \<open>b\<close> find their entries and \<open>c\<close> finds
  none; the entry stored under \<open>A\<close> is found neither by \<open>A\<close> nor by \<open>a\<close>; a string is
  not a hash.
\<close>

theorem Find_decoded_hash_witness:
  "Find id (Some (VHash [([0x61], VInteger 42), ([0x62], VString [0x68, 0x69 :: byte])])) [0x61]
     = Some (VInteger 42 :: unit Value) \<and>
   Find id (Some (VHash [([0x61], VInteger 42), ([0x62], VString [0x68, 0x69 :: byte])])) [0x62]
     = Some (VString [0x68, 0x69] :: unit Value) \<and>
   Find id (Some (VHash [([0x61], VInteger 42), ([0x62], VString [0x68, 0x69 :: byte])])) [0x63]
     = (None :: unit Value option) \<and>
   Find id (Some (VHash [([0x41], VNull)])) [0x41] = (None :: unit Value option) \<and>
   Find id (Some (VHash [([0x41], VNull)])) [0x61] = (None :: unit Value option) \<and>
   Find id (Some (VString [0x61])) [0x61] = (None :: unit Value option)"
proof -
  let ?pf = "\<lambda>s. None :: unit option"
  let ?h = "[([0x61], VInteger 42), ([0x62], VString [0x68, 0x69 :: byte])] :: (gostring \<times> unit Value) list"
  let ?g = "[([0x41], VNull)] :: (gostring \<times> unit Value) list"
  have srt: "\<forall>h :: (gostring \<times> unit Value) list. sorted (map fst (sort_key fst h))"
    by simp
  have sh: "sorted (map fst ?h)"
    using Find_decoded_hash [where srt = "sort_key fst" and pf = ?pf and hash = ?h,
        THEN conjunct2, THEN conjunct2, THEN conjunct2, THEN conjunct1]
      decode_a_b [of ?pf] srt
    by blast
  have sg: "sorted (map fst ?g)"
    by simp
  have "Find id (Some (VHash ?h)) [0x61] = Some (VInteger 42)"
    using Find_decoded_hash [where hash = ?h and name = "[0x61]" and u = id,
        THEN conjunct2, THEN conjunct1] sh
    by simp
  moreover have "Find id (Some (VHash ?h)) [0x62] = Some (VString [0x68, 0x69])"
    using Find_decoded_hash [where hash = ?h and name = "[0x62]" and u = id,
        THEN conjunct2, THEN conjunct1] sh
    by simp
  moreover have "Find id (Some (VHash ?h)) [0x63] = None"
    using Find_decoded_hash [where hash = ?h and name = "[0x63]" and u = id, THEN conjunct1] sh
    by simp
  moreover have "Find id (Some (VHash ?g)) [0x41] = None"
    using Find_decoded_hash [where hash = ?g and name = "[0x41]" and u = id,
        THEN conjunct2, THEN conjunct1] sg
    by simp
  moreover have "Find id (Some (VHash ?g)) [0x61] = None"
    using Find_decoded_hash [where hash = ?g and name = "[0x61]" and u = id, THEN conjunct1] sg
    by simp
  moreover have "Find id (Some (VString [0x61])) [0x61] = (None :: unit Value option)"
    using Find_decoded_hash [where v = "Some (VString [0x61])",
        THEN conjunct2, THEN conjunct2, THEN conjunct2, THEN conjunct2]
    by simp
  ultimately show ?thesis
    by simp
qed

text \<open>
  The claim as stated fails on this decoded hash: the search key \<open>A\<close> is not lower-cased
  and does not find the entry with key \<open>a\<close>. The two keys are distinct, so every sort
  of the entries by key gives the order shown.
\<close>

theorem Find_upper_case_counterexample:
  "readHash (sort_key fst) (\<lambda>s. None :: unit option) [0, 2, 4, 7]
     [0x61, 0, 0x62, 0, 0x34, 0x32, 0, 0x68, 0x69, 0]
     [2, 2, 0, 0, 0, 1, 0, 0, 0, 4, 3, 0, 0, 0, 0, 0, 0, 0, 5, 2, 0, 0, 0, 2]
   = Ok (VHash [([0x61], VInteger 42), ([0x62], VString [0x68, 0x69])], []) \<and>
   Find id (Some (VHash [([0x61], VInteger 42 :: unit Value), ([0x62], VString [0x68, 0x69])])) [0x61]
     = Some (VInteger 42) \<and>
   Find id (Some (VHash [([0x61], VInteger 42 :: unit Value), ([0x62], VString [0x68, 0x69])])) [0x41]
     = None"
  by (simp add: decode_a_b Search_def search_loop.simps)

section \<open>Properties of the number parsers\<close>






















end
